theory Spec2Isabelle
  imports Main "HOL-Library.Word"
begin

unbundle bit_operations_syntax

section \<open>Constants and errors (frame.go, conn.go)\<close>

type_synonym byte = "8 word"

text \<open>
  The error values of the package (\<open>var ( ... ) errors.New\<close>), \<open>io.EOF\<close>, and the
  errors that come from outside the package: \<open>ErrIO\<close> stands for any other error of the
  underlying stream (a timeout, a reset), \<open>ErrRand\<close> for a failure of \<open>crypto/rand\<close>,
  \<open>ErrPanic\<close> for a run-time panic (a failed type assertion, an index out of range).
\<close>

datatype error =
    EOF
  | ErrBadPreambule
  | ErrBadHeader
  | ErrBadMaskingKey
  | ErrFrameTooLarge
  | ErrIO nat
  | ErrRand
  | ErrPanic

definition ContinuationFrame :: byte where "ContinuationFrame = 0"

definition TextFrame :: byte where "TextFrame = 1"

definition BinaryFrame :: byte where "BinaryFrame = 2"

definition CloseFrame :: byte where "CloseFrame = 8"

definition UnknownFrame :: byte where "UnknownFrame = 255"

definition DefaultMaxPayloadBytes :: int where
  "DefaultMaxPayloadBytes = 32 * 2 ^ 20"

definition preambule :: "byte list" where
  "preambule = [0x5A, 0xA5, 0x5A, 0xA5]"

definition closeStatusNormal :: int where "closeStatusNormal = 1000"

section \<open>The buffered stream (bufio.Reader and bufio.Writer over the stream resource)\<close>

text \<open>
  The read side of the connection's \<open>bufio.ReadWriter\<close>. \<open>pending\<close> are the bytes the
  stream still delivers, in order; \<open>rerr\<close> is the error the stream returns once they are
  used up (\<open>io.EOF\<close> for a buffer or a closed peer). How many bytes one \<open>Read\<close> call
  hands over depends on what the buffer holds at that moment; \<open>sched\<close> lists that number
  for the coming \<open>Read\<close> calls (an empty schedule hands over everything). A \<open>Read\<close>
  into a non-empty slice with bytes pending always hands over at least one byte and never
  more than the slice holds.
\<close>

record bufReader =
  pending :: "byte list"
  rerr :: error
  sched :: "nat list"

definition ReadByte :: "bufReader \<Rightarrow> error + (byte \<times> bufReader)" where
  "ReadByte r =
     (case pending r of
        [] \<Rightarrow> Inl (rerr r)
      | b # bs \<Rightarrow> Inr (b, r\<lparr>pending := bs\<rparr>))"

definition bufio_Read :: "nat \<Rightarrow> bufReader \<Rightarrow> (byte list \<times> error option) \<times> bufReader" where
  "bufio_Read m r =
     (if m = 0 then (([], None), r)
      else if pending r = [] then (([], Some (rerr r)), r)
      else
        let k = (case sched r of [] \<Rightarrow> length (pending r) | k # _ \<Rightarrow> k);
            n = min m (min (length (pending r)) (max 1 k))
        in ((take n (pending r), None),
            r\<lparr>pending := drop n (pending r), sched := tl (sched r)\<rparr>))"

text \<open>
  \<open>io.LimitedReader.Read\<close> over the buffered reader: \<open>N\<close> is the number of bytes
  still allowed (an \<open>int64\<close> that only decreases towards 0, held as \<open>int\<close>), \<open>m\<close> the
  length of the slice to fill. It returns the new \<open>N\<close> as well.
\<close>

definition LimitedReader_Read ::
  "int \<Rightarrow> nat \<Rightarrow> bufReader \<Rightarrow> (byte list \<times> error option) \<times> int \<times> bufReader" where
  "LimitedReader_Read N m r =
     (if N \<le> 0 then (([], Some EOF), N, r)
      else
        let m' = (if int m > N then nat N else m);
            (res, r') = bufio_Read m' r
        in (res, N - int (length (fst res)), r'))"

text \<open>
  The write side. \<open>wbuf\<close> holds what was written and not flushed, \<open>sent\<close> what reached
  the stream, \<open>werr\<close> is the error with which the stream refuses bytes (\<open>None\<close> when it
  accepts them) and \<open>berr\<close> the sticky error of the \<open>bufio.Writer\<close>.
\<close>

record bufWriter =
  wbuf :: "byte list"
  sent :: "byte list"
  werr :: "error option"
  berr :: "error option"

definition bufio_Write :: "byte list \<Rightarrow> bufWriter \<Rightarrow> bufWriter" where
  "bufio_Write p w = (if berr w \<noteq> None then w else w\<lparr>wbuf := wbuf w @ p\<rparr>)"

definition bufio_Flush :: "bufWriter \<Rightarrow> error option \<times> bufWriter" where
  "bufio_Flush w =
     (case berr w of
        Some e \<Rightarrow> (Some e, w)
      | None \<Rightarrow>
          if wbuf w = [] then (None, w)
          else (case werr w of
                  None \<Rightarrow> (None, w\<lparr>wbuf := [], sent := sent w @ wbuf w\<rparr>)
                | Some e \<Rightarrow> (Some e, w\<lparr>berr := Some e\<rparr>)))"

section \<open>Frame header and frame reader (frame.go)\<close>

text \<open>
  \<open>Rsv\<close> is the array \<open>[3]bool\<close>, \<open>Length\<close> an \<open>int64\<close> (read with \<open>sint\<close>),
  \<open>MaskingKey\<close> a slice that is \<open>nil\<close> when the frame is not masked, \<open>data\<close> the
  buffer of raw header bytes (\<open>nil\<close> in a header that was not decoded).
\<close>

record tcpFrameHeader =
  Fin :: bool
  Rsv :: "bool \<times> bool \<times> bool"
  OpCode :: byte
  Length :: "64 word"
  MaskingKey :: "byte list option"
  data :: "byte list option"

text \<open>
  The frame reader. Its field \<open>reader\<close> is \<open>io.LimitReader(buf.Reader, header.Length)\<close>:
  the buffered reader is the connection's, so the frame holds only the limit \<open>limitN\<close>.
  \<open>pos\<close> counts the payload bytes consumed (an \<open>int64\<close> that starts at 0 and only grows);
  \<open>flength\<close> is the field \<open>length\<close>, an \<open>int\<close> of 64 bits.
\<close>

record tcpFrameReader =
  header :: tcpFrameHeader
  pos :: nat
  flength :: "64 word"
  limitN :: int

text \<open>The zero value of the header, as \<open>new(tcpFrameReader)\<close> and a struct literal leave it.\<close>

definition zeroHeader :: tcpFrameHeader where
  "zeroHeader = \<lparr>Fin = False, Rsv = (False, False, False), OpCode = 0, Length = 0,
                 MaskingKey = None, data = None\<rparr>"

text \<open>
  The loop over the preamble bytes: a read error is returned as it is, a mismatch is
  \<open>ErrBadPreambule\<close>. The bytes read before a failure are gone from the stream, so a
  failure comes with the buffered reader as it is left.
\<close>

fun checkPreambule :: "byte list \<Rightarrow> bufReader \<Rightarrow> (error \<times> bufReader) + bufReader" where
  "checkPreambule [] r = Inr r"
| "checkPreambule (p # ps) r =
     (case ReadByte r of
        Inl err \<Rightarrow> Inl (err, r)
      | Inr (b, r') \<Rightarrow> if b \<noteq> p then Inl (ErrBadPreambule, r') else checkPreambule ps r')"

text \<open>The loop \<open>for i := 0; i < lengthFields; i++\<close>: each byte is appended to the raw header and shifted into \<open>Length\<close>.\<close>

fun readLengthFields ::
  "nat \<Rightarrow> byte list \<Rightarrow> 64 word \<Rightarrow> bufReader \<Rightarrow>
     (error \<times> bufReader) + (byte list \<times> 64 word \<times> bufReader)" where
  "readLengthFields 0 hdr len r = Inr (hdr, len, r)"
| "readLengthFields (Suc n) hdr len r =
     (case ReadByte r of
        Inl err \<Rightarrow> Inl (err, r)
      | Inr (b, r') \<Rightarrow> readLengthFields n (hdr @ [b]) (len * 256 + ucast b) r')"

text \<open>The loop over the four bytes of the masking key.\<close>

fun readMaskingKey ::
  "nat \<Rightarrow> byte list \<Rightarrow> byte list \<Rightarrow> bufReader \<Rightarrow>
     (error \<times> bufReader) + (byte list \<times> byte list \<times> bufReader)" where
  "readMaskingKey 0 hdr key r = Inr (hdr, key, r)"
| "readMaskingKey (Suc n) hdr key r =
     (case ReadByte r of
        Inl err \<Rightarrow> Inl (err, r)
      | Inr (b, r') \<Rightarrow> readMaskingKey n (hdr @ [b]) (key @ [b]) r')"

text \<open>
  \<open>NewFrameReader\<close>: the frame and the buffered reader after the header, or the error
  and the buffered reader after the bytes read up to the failure.
\<close>

definition NewFrameReader :: "bufReader \<Rightarrow> (error \<times> bufReader) + (tcpFrameReader \<times> bufReader)" where
  "NewFrameReader buf =
     (case checkPreambule preambule buf of
        Inl failed \<Rightarrow> Inl failed
      | Inr r0 \<Rightarrow>
     (case ReadByte r0 of
        Inl err \<Rightarrow> Inl (err, r0)
      | Inr (b1, r1) \<Rightarrow>
     (case ReadByte r1 of
        Inl err \<Rightarrow> Inl (err, r1)
      | Inr (b2, r2) \<Rightarrow>
          let mask = (b2 AND 0x80 \<noteq> 0);
              b = b2 AND 0x7f;
              len0 = (if b \<le> 125 then ucast b else 0);
              lengthFields = (if b \<le> 125 then 0 else if b = 126 then 2 else if b = 127 then 8 else 0)
          in
     (case readLengthFields lengthFields [b1, b2] len0 r2 of
        Inl failed \<Rightarrow> Inl failed
      | Inr (hdr3, len, r3) \<Rightarrow>
     (case (if mask then readMaskingKey 4 hdr3 [] r3 else Inr (hdr3, [], r3)) of
        Inl failed \<Rightarrow> Inl failed
      | Inr (hdr4, key, r4) \<Rightarrow>
          Inr (\<lparr>header =
                  \<lparr>Fin = (b1 AND 0x80 \<noteq> 0),
                   Rsv = (drop_bit 6 b1 AND 1 \<noteq> 0, drop_bit 5 b1 AND 1 \<noteq> 0, drop_bit 4 b1 AND 1 \<noteq> 0),
                   OpCode = b1 AND 0x0f,
                   Length = len,
                   MaskingKey = (if mask then Some key else None),
                   data = Some hdr4\<rparr>,
                pos = 0,
                flength = of_nat (length hdr4) + len,
                limitN = sint len\<rparr>, r4))))))"

text \<open>
  \<open>tcpFrameReader.Read\<close> into a slice of \<open>m\<close> bytes: the bytes read and the error, the
  frame and the buffered reader after the call. With a masking key each byte read is
  XORed with \<open>MaskingKey[pos % 4]\<close> and \<open>pos\<close> advances by one; an index outside the key
  panics.
\<close>

definition xorKey :: "byte list \<Rightarrow> nat \<Rightarrow> byte list \<Rightarrow> byte list" where
  "xorKey key p msg = map (\<lambda>(i, b). b XOR key ! ((p + i) mod 4)) (enumerate 0 msg)"

definition keyInRange :: "byte list \<Rightarrow> nat \<Rightarrow> nat \<Rightarrow> bool" where
  "keyInRange key p n = list_all (\<lambda>i. (p + i) mod 4 < length key) [0..<n]"

definition tcpFrameReader_Read ::
  "tcpFrameReader \<Rightarrow> nat \<Rightarrow> bufReader \<Rightarrow> (byte list \<times> error option) \<times> tcpFrameReader \<times> bufReader" where
  "tcpFrameReader_Read frame m buf =
     (let ((bs, err), N', buf') = LimitedReader_Read (limitN frame) m buf
      in case MaskingKey (header frame) of
           None \<Rightarrow> ((bs, err), frame\<lparr>limitN := N'\<rparr>, buf')
         | Some key \<Rightarrow>
             if keyInRange key (pos frame) (length bs)
             then ((xorKey key (pos frame) bs, err),
                   frame\<lparr>limitN := N', pos := pos frame + length bs\<rparr>, buf')
             else (([], Some ErrPanic), frame\<lparr>limitN := N'\<rparr>, buf'))"

definition tcpFrameReader_PayloadType :: "tcpFrameReader \<Rightarrow> byte" where
  "tcpFrameReader_PayloadType frame = OpCode (header frame)"

definition tcpFrameReader_HeaderReader :: "tcpFrameReader \<Rightarrow> byte list option" where
  "tcpFrameReader_HeaderReader frame =
     (case data (header frame) of
        None \<Rightarrow> None
      | Some d \<Rightarrow> if length d = 0 then None else Some d)"

definition tcpFrameReader_Len :: "tcpFrameReader \<Rightarrow> 64 word" where
  "tcpFrameReader_Len frame = flength frame"

section \<open>Frame writer (frame.go)\<close>

definition AppendUint16 :: "byte list \<Rightarrow> 16 word \<Rightarrow> byte list" where
  "AppendUint16 b v = b @ [ucast (drop_bit 8 v), ucast v]"

definition AppendUint64 :: "byte list \<Rightarrow> 64 word \<Rightarrow> byte list" where
  "AppendUint64 b v =
     b @ [ucast (drop_bit 56 v), ucast (drop_bit 48 v), ucast (drop_bit 40 v),
          ucast (drop_bit 32 v), ucast (drop_bit 24 v), ucast (drop_bit 16 v),
          ucast (drop_bit 8 v), ucast v]"

text \<open>
  The header bytes \<open>tcpFrameWriter.Write\<close> builds before it looks at the masking key:
  the first byte from \<open>Fin\<close>, \<open>Rsv\<close> and \<open>OpCode\<close>, the second from the mask bit and
  the length indicator, then the extended length. \<open>n\<close> is \<open>len(msg)\<close>.
\<close>

definition writeHeader :: "tcpFrameHeader \<Rightarrow> nat \<Rightarrow> byte list" where
  "writeHeader h n =
     (let b0 = (if Fin h then 0x80 else 0);
          b1 = (case Rsv h of (r0, r1, r2) \<Rightarrow>
                  (if r0 then push_bit 6 1 else 0) OR (if r1 then push_bit 5 1 else 0)
                  OR (if r2 then push_bit 4 1 else 0));
          b = b0 OR b1 OR OpCode h;
          m = (if MaskingKey h \<noteq> None then 0x80 else 0x00);
          lengthFields = (if n \<le> 125 then 0 else if n < 65536 then 2 else 8 :: nat);
          l = (if n \<le> 125 then m OR of_nat n else if n < 65536 then m OR 126 else m OR 127);
          hdr = [b, l];
          hdr = (if lengthFields = 2 then AppendUint16 hdr (of_nat n) else hdr);
          hdr = (if lengthFields = 8 then AppendUint64 hdr (of_nat n) else hdr)
      in hdr)"

text \<open>
  \<open>tcpFrameWriter.Write\<close>: the writer is its header and the factory's \<open>bufio.Writer\<close>.
  The result is the returned count and error, and the buffered writer after the call.
\<close>

definition tcpFrameWriter_Write ::
  "tcpFrameHeader \<Rightarrow> byte list \<Rightarrow> bufWriter \<Rightarrow> (nat \<times> error option) \<times> bufWriter" where
  "tcpFrameWriter_Write h msg w =
     (let hdr = writeHeader h (length msg)
      in case MaskingKey h of
           Some key \<Rightarrow>
             if length key \<noteq> 4 then ((0, Some ErrBadMaskingKey), w)
             else
               let hdr = hdr @ key;
                   dat = xorKey key 0 msg;
                   w1 = bufio_Write preambule w;
                   w2 = bufio_Write hdr w1;
                   w3 = bufio_Write dat w2;
                   (err, w4) = bufio_Flush w3
               in ((length preambule + length hdr + length msg, err), w4)
         | None \<Rightarrow>
             let w1 = bufio_Write preambule w;
                 w2 = bufio_Write hdr w1;
                 w3 = bufio_Write msg w2;
                 (err, w4) = bufio_Flush w3
             in ((length preambule + length hdr + length msg, err), w4))"

text \<open>
  \<open>generateMaskingKey\<close> fills a slice of 4 bytes from \<open>crypto/rand\<close>. \<open>entropy\<close> are
  the bytes the random source delivers; it fails when it cannot deliver 4.
\<close>

definition generateMaskingKey :: "byte list \<Rightarrow> (byte list \<times> error option) \<times> byte list" where
  "generateMaskingKey ent =
     (if length ent < 4 then ((replicate 4 0, Some ErrRand), ent)
      else ((take 4 ent, None), drop 4 ent))"

record tcpFrameWriterFactory =
  Writer :: bufWriter
  needMaskingKey :: bool
  entropy :: "byte list"

text \<open>\<open>NewFrameWriter\<close>: the writer (its header), or the error, and the factory after the call.\<close>

definition NewFrameWriter ::
  "tcpFrameWriterFactory \<Rightarrow> byte \<Rightarrow> (error + tcpFrameHeader) \<times> tcpFrameWriterFactory" where
  "NewFrameWriter f payloadType =
     (let frameHeader = zeroHeader\<lparr>Fin := True, OpCode := payloadType\<rparr>
      in if needMaskingKey f then
           (let ((key, err), ent') = generateMaskingKey (entropy f)
            in case err of
                 Some e \<Rightarrow> (Inl e, f\<lparr>entropy := ent'\<rparr>)
               | None \<Rightarrow> (Inr (frameHeader\<lparr>MaskingKey := Some key\<rparr>), f\<lparr>entropy := ent'\<rparr>))
         else (Inr frameHeader, f))"

section \<open>The interfaces of conn.go\<close>

text \<open>
  \<open>frameReader\<close> is an interface (\<open>Read\<close>, \<open>PayloadType\<close>, \<open>HeaderReader\<close>, \<open>Len\<close>).
  The package implements it by \<open>*tcpFrameReader\<close>; \<open>OtherFrame\<close> stands for a value of
  any other dynamic type: a reader over bytes it holds itself, with a payload type and a
  length of its own.
\<close>

record otherFrameReader =
  o_payload :: "byte list"
  o_type :: byte
  o_len :: "64 word"

datatype frameReader = TcpFrame tcpFrameReader | OtherFrame otherFrameReader

definition otherFrameReader_Read ::
  "otherFrameReader \<Rightarrow> nat \<Rightarrow> (byte list \<times> error option) \<times> otherFrameReader" where
  "otherFrameReader_Read fr m =
     (if o_payload fr = [] then (([], Some EOF), fr)
      else ((take m (o_payload fr), None), fr\<lparr>o_payload := drop m (o_payload fr)\<rparr>))"

fun frame_Read ::
  "frameReader \<Rightarrow> nat \<Rightarrow> bufReader \<Rightarrow> (byte list \<times> error option) \<times> frameReader \<times> bufReader" where
  "frame_Read (TcpFrame fr) m buf =
     (let (res, fr', buf') = tcpFrameReader_Read fr m buf in (res, TcpFrame fr', buf'))"
| "frame_Read (OtherFrame fr) m buf =
     (let (res, fr') = otherFrameReader_Read fr m in (res, OtherFrame fr', buf))"

fun frame_PayloadType :: "frameReader \<Rightarrow> byte" where
  "frame_PayloadType (TcpFrame fr) = tcpFrameReader_PayloadType fr"
| "frame_PayloadType (OtherFrame fr) = o_type fr"

fun frame_Len :: "frameReader \<Rightarrow> 64 word" where
  "frame_Len (TcpFrame fr) = tcpFrameReader_Len fr"
| "frame_Len (OtherFrame fr) = o_len fr"

section \<open>Frame handler (frame.go)\<close>

record tcpFrameHandler =
  payloadType :: byte

text \<open>
  \<open>tcpFrameHandler.HandleFrame\<close>: the returned frame (\<open>None\<close> is \<open>nil\<close>) and error, and
  the handler after the call. The type assertion \<open>frame.(*tcpFrameReader)\<close> of the
  continuation case panics on a frame of another type.
\<close>

definition tcpFrameHandler_HandleFrame ::
  "tcpFrameHandler \<Rightarrow> frameReader \<Rightarrow> (frameReader option \<times> error option) \<times> tcpFrameHandler" where
  "tcpFrameHandler_HandleFrame handler frame =
     (let t = frame_PayloadType frame
      in if t = ContinuationFrame then
           (case frame of
              TcpFrame fr \<Rightarrow>
                ((Some (TcpFrame (fr\<lparr>header := (header fr)\<lparr>OpCode := payloadType handler\<rparr>\<rparr>)), None),
                 handler)
            | OtherFrame _ \<Rightarrow> ((None, Some ErrPanic), handler))
         else if t = TextFrame \<or> t = BinaryFrame then
           ((Some frame, None), handler\<lparr>payloadType := t\<rparr>)
         else if t = CloseFrame then ((None, Some EOF), handler)
         else ((Some frame, None), handler))"

text \<open>\<open>tcpFrameHandler.WriteClose\<close>: the status is an \<open>int\<close>, cut to \<open>uint16\<close>.\<close>

definition tcpFrameHandler_WriteClose ::
  "tcpFrameWriterFactory \<Rightarrow> int \<Rightarrow> error option \<times> tcpFrameWriterFactory" where
  "tcpFrameHandler_WriteClose writerFactory status =
     (case NewFrameWriter writerFactory CloseFrame of
        (Inl err, f') \<Rightarrow> (Some err, f')
      | (Inr writer, f') \<Rightarrow>
          let ((n, err), w') = tcpFrameWriter_Write writer (AppendUint16 [] (of_int status)) (Writer f')
          in (err, f'\<lparr>Writer := w'\<rparr>))"

text \<open>
  \<open>frameHandler\<close> is an interface as well, given to \<open>NewFrameConnection\<close> by its caller:
  the package's \<open>*tcpFrameHandler\<close>, or a handler of another type, which is any pair of
  functions for the two methods.
\<close>

datatype frameHandler =
    TcpFrameHandler tcpFrameHandler
  | OtherFrameHandler
      "frameReader \<Rightarrow> frameReader option \<times> error option"
      "tcpFrameWriterFactory \<Rightarrow> int \<Rightarrow> error option \<times> tcpFrameWriterFactory"

fun HandleFrame ::
  "frameHandler \<Rightarrow> frameReader \<Rightarrow> (frameReader option \<times> error option) \<times> frameHandler" where
  "HandleFrame (TcpFrameHandler h) frame =
     (let (res, h') = tcpFrameHandler_HandleFrame h frame in (res, TcpFrameHandler h'))"
| "HandleFrame (OtherFrameHandler hf wc) frame = (hf frame, OtherFrameHandler hf wc)"

fun WriteClose ::
  "frameHandler \<Rightarrow> tcpFrameWriterFactory \<Rightarrow> int \<Rightarrow> error option \<times> tcpFrameWriterFactory" where
  "WriteClose (TcpFrameHandler h) writerFactory status = tcpFrameHandler_WriteClose writerFactory status"
| "WriteClose (OtherFrameHandler hf wc) writerFactory status = wc writerFactory status"

section \<open>The connection (conn.go)\<close>

text \<open>
  \<open>frameReaderFactory\<close> is \<open>tcpFrameReaderFactory{Reader: buf.Reader}\<close>, that is the
  buffered reader; \<open>frameWriterFactory\<close> holds the buffered writer. Of the stream resource
  \<open>rwc\<close> the model keeps whether it was closed and the error its \<open>Close\<close> returns. The
  two locks serialise the calls; every function below is one call run alone. An \<open>int\<close>
  has 64 bits; \<open>MaxPayloadBytes\<close> and the close status are only compared and converted,
  so they are held as integers.
\<close>

record Conn =
  frameReaderFactory :: bufReader
  frameWriterFactory :: tcpFrameWriterFactory
  rwc_closed :: bool
  rwc_closeErr :: "error option"
  frameReader :: "frameReader option"
  frameHandler :: frameHandler
  PayloadType :: byte
  defaultCloseStatus :: int
  MaxPayloadBytes :: int

text \<open>
  \<open>NewFrameConnection(rwc, buf, handler, maxPayloadBytes)\<close>: the stream is given by its
  two buffered sides, the error of its \<open>Close\<close> and the random source. The writer factory
  is built without \<open>needMaskingKey\<close>, and \<open>PayloadType\<close> is left at its zero value.
\<close>

definition NewFrameConnection ::
  "bufReader \<Rightarrow> bufWriter \<Rightarrow> error option \<Rightarrow> byte list \<Rightarrow> frameHandler \<Rightarrow> int \<Rightarrow> Conn" where
  "NewFrameConnection br bw cerr ent handler maxPayloadBytes =
     \<lparr>frameReaderFactory = br,
      frameWriterFactory = \<lparr>Writer = bw, needMaskingKey = False, entropy = ent\<rparr>,
      rwc_closed = False,
      rwc_closeErr = cerr,
      frameReader = None,
      frameHandler = handler,
      PayloadType = 0,
      defaultCloseStatus = closeStatusNormal,
      MaxPayloadBytes = maxPayloadBytes\<rparr>"

section \<open>Reading never gives bytes back: the measures of the loops\<close>

lemma ReadByte_shrinks:
  "ReadByte r = Inr (b, r') \<Longrightarrow> length (pending r') < length (pending r)"
  by (auto simp: ReadByte_def split: list.splits)

lemma checkPreambule_shrinks:
  "checkPreambule ps r = Inr r' \<Longrightarrow> length (pending r') \<le> length (pending r)"
  by (induction ps arbitrary: r)
     (auto split: sum.splits if_splits dest!: ReadByte_shrinks, fastforce)

lemma readLengthFields_shrinks:
  "readLengthFields n hdr len r = Inr (hdr', len', r') \<Longrightarrow> length (pending r') \<le> length (pending r)"
  by (induction n arbitrary: hdr len r)
     (auto split: sum.splits dest!: ReadByte_shrinks, fastforce)

lemma readMaskingKey_shrinks:
  "readMaskingKey n hdr key r = Inr (hdr', key', r') \<Longrightarrow> length (pending r') \<le> length (pending r)"
  by (induction n arbitrary: hdr key r)
     (auto split: sum.splits dest!: ReadByte_shrinks, fastforce)

lemma NewFrameReader_shrinks:
  assumes "NewFrameReader buf = Inr (frame, buf')"
  shows "length (pending buf') < length (pending buf)"
proof -
  from assms obtain r0 b1 r1 b2 r2 hdr3 len r3 hdr4 key where
    a: "checkPreambule preambule buf = Inr r0" and
    b: "ReadByte r0 = Inr (b1, r1)" and
    c: "ReadByte r1 = Inr (b2, r2)" and
    d: "readLengthFields (if b2 AND 0x7f \<le> 125 then 0 else if b2 AND 0x7f = 126 then 2 else if b2 AND 0x7f = 127 then 8 else 0) [b1, b2]
          (if b2 AND 0x7f \<le> 125 then ucast (b2 AND 0x7f) else 0) r2 = Inr (hdr3, len, r3)" and
    e: "(if b2 AND 0x80 \<noteq> 0 then readMaskingKey 4 hdr3 [] r3 else Inr (hdr3, [], r3)) = Inr (hdr4, key, buf')"
    unfolding NewFrameReader_def Let_def
    by (auto split: sum.splits prod.splits)
  have "length (pending buf') \<le> length (pending r3)"
    using e readMaskingKey_shrinks by (auto split: if_splits)
  also have "\<dots> \<le> length (pending r2)" using d readLengthFields_shrinks by blast
  also have "\<dots> < length (pending r1)" using c ReadByte_shrinks by blast
  also have "\<dots> < length (pending r0)" using b ReadByte_shrinks by blast
  also have "\<dots> \<le> length (pending buf)" using a checkPreambule_shrinks by blast
  finally show ?thesis .
qed

lemma bufio_Read_pending:
  "bufio_Read m r = ((bs, err), r') \<Longrightarrow> pending r = bs @ pending r' \<and> (err = None \<and> 0 < m \<longrightarrow> bs \<noteq> [])"
  by (auto simp: bufio_Read_def Let_def min_def max_def split: if_splits list.splits)

lemma LimitedReader_Read_pending:
  "LimitedReader_Read N m r = ((bs, err), N', r') \<Longrightarrow>
     pending r = bs @ pending r' \<and> (err = None \<and> 0 < m \<longrightarrow> bs \<noteq> [])"
  unfolding LimitedReader_Read_def Let_def
  by (auto split: if_splits prod.splits dest!: bufio_Read_pending)

lemma tcpFrameReader_Read_pending:
  "tcpFrameReader_Read fr m r = ((bs, err), fr', r') \<Longrightarrow>
     length (pending r') \<le> length (pending r) \<and>
     (err = None \<and> 0 < m \<longrightarrow> length (pending r') < length (pending r))"
  unfolding tcpFrameReader_Read_def Let_def
  by (auto split: prod.splits option.splits if_splits dest!: LimitedReader_Read_pending)

lemma otherFrameReader_Read_shrinks:
  "otherFrameReader_Read fr m = ((bs, err), fr') \<Longrightarrow>
     length (o_payload fr') \<le> length (o_payload fr) \<and>
     (err = None \<and> 0 < m \<longrightarrow> length (o_payload fr') < length (o_payload fr))"
  unfolding otherFrameReader_Read_def by (auto split: if_splits)

text \<open>What a frame still has to deliver at most: the measure of the loops that drain it.\<close>

fun frameLeft :: "frameReader \<Rightarrow> bufReader \<Rightarrow> nat" where
  "frameLeft (TcpFrame fr) buf = length (pending buf)"
| "frameLeft (OtherFrame fr) buf = length (o_payload fr)"

lemma frame_Read_progress:
  "frame_Read fr m buf = ((bs, None), fr', buf') \<Longrightarrow> 0 < m \<Longrightarrow> frameLeft fr' buf' < frameLeft fr buf"
  by (cases fr)
     (auto split: prod.splits dest!: tcpFrameReader_Read_pending otherFrameReader_Read_shrinks)

lemma frame_Read_pending_le:
  "frame_Read fr m buf = (res, fr', buf') \<Longrightarrow> length (pending buf') \<le> length (pending buf)"
  by (cases fr; cases res)
     (auto split: prod.splits dest!: tcpFrameReader_Read_pending)

text \<open>
  \<open>io.Copy(io.Discard, frame)\<close>: \<open>io.Discard\<close> reads into a buffer of 8192 bytes until
  an error; \<open>io.EOF\<close> is success. It returns the error, the frame and the buffered
  reader after the call.
\<close>

function io_Copy_Discard ::
  "frameReader \<Rightarrow> bufReader \<Rightarrow> error option \<times> frameReader \<times> bufReader" where
  "io_Copy_Discard fr buf =
     (case frame_Read fr 8192 buf of
        ((bs, Some e), fr', buf') \<Rightarrow> (if e = EOF then None else Some e, fr', buf')
      | ((bs, None), fr', buf') \<Rightarrow> io_Copy_Discard fr' buf')"
  by pat_completeness auto
termination
  by (relation "measure (\<lambda>(fr, buf). frameLeft fr buf)")
     (auto dest!: frame_Read_progress [OF sym])

text \<open>
  \<open>io.ReadAll(frame)\<close>: reads into the free part of its buffer, at least 512 bytes at
  the start and never empty, until an error; \<open>io.EOF\<close> is success. The bytes of the
  failing read are kept.
\<close>

function io_ReadAll ::
  "frameReader \<Rightarrow> bufReader \<Rightarrow> (byte list \<times> error option) \<times> frameReader \<times> bufReader" where
  "io_ReadAll fr buf =
     (case frame_Read fr 512 buf of
        ((bs, Some e), fr', buf') \<Rightarrow> ((bs, if e = EOF then None else Some e), fr', buf')
      | ((bs, None), fr', buf') \<Rightarrow>
          (let ((rest, err), fr'', buf'') = io_ReadAll fr' buf'
           in ((bs @ rest, err), fr'', buf'')))"
  by pat_completeness auto
termination
  by (relation "measure (\<lambda>(fr, buf). frameLeft fr buf)")
     (auto dest!: frame_Read_progress [OF sym])

text \<open>
  \<open>Conn.Read\<close> into a slice of \<open>m\<close> bytes. One round of its loop: without an active
  frame it decodes the next header and hands the frame to the handler; the \<open>continue\<close>
  on a \<open>nil\<close> frame and the fall through to the read are both the next round. With an
  active frame it reads; on \<open>io.EOF\<close> it clears the frame and goes round again.
\<close>

function Conn_Read :: "Conn \<Rightarrow> nat \<Rightarrow> (byte list \<times> error option) \<times> Conn" where
  "Conn_Read conn m =
     (case frameReader conn of
        None \<Rightarrow>
          (case NewFrameReader (frameReaderFactory conn) of
             Inl (err, buf') \<Rightarrow> (([], Some err), conn\<lparr>frameReaderFactory := buf'\<rparr>)
           | Inr (frame, buf') \<Rightarrow>
               (case HandleFrame (frameHandler conn) (TcpFrame frame) of
                  ((fr, err), h') \<Rightarrow>
                    if err \<noteq> None
                    then (([], err), conn\<lparr>frameReaderFactory := buf', frameHandler := h', frameReader := fr\<rparr>)
                    else Conn_Read (conn\<lparr>frameReaderFactory := buf', frameHandler := h', frameReader := fr\<rparr>) m))
      | Some fr \<Rightarrow>
          (case frame_Read fr m (frameReaderFactory conn) of
             ((bs, err), fr', buf') \<Rightarrow>
               if err = Some EOF
               then Conn_Read (conn\<lparr>frameReaderFactory := buf', frameReader := None\<rparr>) m
               else ((bs, err), conn\<lparr>frameReaderFactory := buf', frameReader := Some fr'\<rparr>)))"
  by pat_completeness auto
termination
  by (relation "measure (\<lambda>(conn, m). 2 * length (pending (frameReaderFactory conn)) +
                   (if frameReader conn = None then 0 else 1))")
     (auto dest!: NewFrameReader_shrinks frame_Read_pending_le [OF sym])

text \<open>The loop of \<open>Conn.ReadFrame\<close>, entered without an active frame.\<close>

function ReadFrame_loop :: "Conn \<Rightarrow> (byte list \<times> error option) \<times> Conn" where
  "ReadFrame_loop conn =
     (case NewFrameReader (frameReaderFactory conn) of
        Inl (err, buf') \<Rightarrow> (([], Some err), conn\<lparr>frameReaderFactory := buf'\<rparr>)
      | Inr (frame0, buf') \<Rightarrow>
          (case HandleFrame (frameHandler conn) (TcpFrame frame0) of
             ((fr, err), h') \<Rightarrow>
               let conn' = conn\<lparr>frameReaderFactory := buf', frameHandler := h'\<rparr>
               in if err \<noteq> None then (([], err), conn')
                  else
                    (case fr of
                       None \<Rightarrow> ReadFrame_loop conn'
                     | Some frame \<Rightarrow>
                         let maxPayloadBytes =
                               (if MaxPayloadBytes conn = 0 then DefaultMaxPayloadBytes
                                else MaxPayloadBytes conn);
                             tooLarge =
                               (case frame of
                                  TcpFrame r \<Rightarrow> maxPayloadBytes < sint (Length (header r))
                                | OtherFrame _ \<Rightarrow> False)
                         in if tooLarge then
                              (case io_Copy_Discard frame buf' of
                                 (Some e, _, buf'') \<Rightarrow> (([], Some e), conn'\<lparr>frameReaderFactory := buf''\<rparr>)
                               | (None, _, buf'') \<Rightarrow>
                                   (([], Some ErrFrameTooLarge), conn'\<lparr>frameReaderFactory := buf''\<rparr>))
                            else
                              (case io_ReadAll frame buf' of
                                 (res, _, buf'') \<Rightarrow> (res, conn'\<lparr>frameReaderFactory := buf''\<rparr>)))))"
  by pat_completeness auto
termination
  by (relation "measure (\<lambda>conn. length (pending (frameReaderFactory conn)))")
     (auto dest!: NewFrameReader_shrinks)

definition Conn_ReadFrame :: "Conn \<Rightarrow> (byte list \<times> error option) \<times> Conn" where
  "Conn_ReadFrame conn =
     (case frameReader conn of
        Some fr \<Rightarrow>
          (case io_Copy_Discard fr (frameReaderFactory conn) of
             (Some e, fr', buf') \<Rightarrow>
               (([], Some e), conn\<lparr>frameReaderFactory := buf', frameReader := Some fr'\<rparr>)
           | (None, fr', buf') \<Rightarrow>
               ReadFrame_loop (conn\<lparr>frameReaderFactory := buf', frameReader := None\<rparr>))
      | None \<Rightarrow> ReadFrame_loop conn)"

definition Conn_Write :: "Conn \<Rightarrow> byte list \<Rightarrow> (nat \<times> error option) \<times> Conn" where
  "Conn_Write conn msg =
     (case NewFrameWriter (frameWriterFactory conn) (PayloadType conn) of
        (Inl err, f') \<Rightarrow> ((0, Some err), conn\<lparr>frameWriterFactory := f'\<rparr>)
      | (Inr w, f') \<Rightarrow>
          let (res, bw) = tcpFrameWriter_Write w msg (Writer f')
          in (res, conn\<lparr>frameWriterFactory := f'\<lparr>Writer := bw\<rparr>\<rparr>))"

definition Conn_Close :: "Conn \<Rightarrow> error option \<times> Conn" where
  "Conn_Close conn =
     (let (err, f') = WriteClose (frameHandler conn) (frameWriterFactory conn) (defaultCloseStatus conn);
          err1 = rwc_closeErr conn;
          conn' = conn\<lparr>frameWriterFactory := f', rwc_closed := True\<rparr>
      in (if err \<noteq> None then err else err1, conn'))"

section \<open>Notions the statements use\<close>

text \<open>
  The bytes of one frame in the order \<open>tcpFrameWriter.Write\<close> hands them to the buffered
  writer: preamble, header (with the masking key, if any), payload (masked, if so).
\<close>

definition wireFrame :: "tcpFrameHeader \<Rightarrow> byte list \<Rightarrow> byte list" where
  "wireFrame h msg =
     preambule @ writeHeader h (length msg) @
     (case MaskingKey h of None \<Rightarrow> msg | Some key \<Rightarrow> key @ xorKey key 0 msg)"

text \<open>The ceiling \<open>ReadFrame\<close> uses: \<open>MaxPayloadBytes\<close>, or the default when that is 0.\<close>

definition ceiling_of :: "Conn \<Rightarrow> int" where
  "ceiling_of conn =
     (if MaxPayloadBytes conn = 0 then DefaultMaxPayloadBytes else MaxPayloadBytes conn)"

text \<open>The handler as the tests create it, \<open>&tcpFrameHandler{}\<close>: the zero value.\<close>

definition zeroHandler :: tcpFrameHandler where
  "zeroHandler = \<lparr>payloadType = 0\<rparr>"

text \<open>The frames a handler has seen, in order: the handler after them.\<close>

fun handled :: "tcpFrameHandler \<Rightarrow> frameReader list \<Rightarrow> tcpFrameHandler" where
  "handled h [] = h"
| "handled h (f # fs) = handled (snd (tcpFrameHandler_HandleFrame h f)) fs"

text \<open>
  The caller's loop of \<open>TestConnReadWriteClose\<close>, \<open>for j < len(want)\<close>: \<open>Read\<close> into
  a slice, add the bytes the call returns, stop at an error. \<open>want\<close> is the number of
  bytes still expected; the caller's slices have the given sizes, one per call, and the
  caller stops as well when they are used up.
\<close>

fun readBack :: "nat \<Rightarrow> nat list \<Rightarrow> Conn \<Rightarrow> (byte list \<times> error option) \<times> Conn" where
  "readBack want [] conn = (([], None), conn)"
| "readBack want (m # ms) conn =
     (if want = 0 then (([], None), conn)
      else
        (case Conn_Read conn m of
           ((bs, Some e), conn') \<Rightarrow> (([], Some e), conn')
         | ((bs, None), conn') \<Rightarrow>
             (let ((rest, err), conn'') = readBack (want - length bs) ms conn'
              in ((bs @ rest, err), conn''))))"

text \<open>
  The writing loop of the same test: one \<open>Write\<close> per message, here stopping at the first
  error. \<open>sentSince\<close> are the bytes that reached the stream between two states of a
  connection.
\<close>

fun writeAll :: "Conn \<Rightarrow> byte list list \<Rightarrow> error option \<times> Conn" where
  "writeAll conn [] = (None, conn)"
| "writeAll conn (msg # msgs) =
     (case Conn_Write conn msg of
        ((n, Some e), conn') \<Rightarrow> (Some e, conn')
      | ((n, None), conn') \<Rightarrow> writeAll conn' msgs)"

definition sentSince :: "Conn \<Rightarrow> Conn \<Rightarrow> byte list" where
  "sentSince before after =
     drop (length (sent (Writer (frameWriterFactory before))))
          (sent (Writer (frameWriterFactory after)))"

text \<open>
  A sequence of frames on the stream, each given by the writer's header and the message:
  their bytes, their payloads, and what makes a frame one that \<open>NewFrameWriter\<close> and
  \<open>Write\<close> produce for a payload type other than close.
\<close>

definition wires :: "(tcpFrameHeader \<times> byte list) list \<Rightarrow> byte list" where
  "wires fps = concat (map (\<lambda>(h, P). wireFrame h P) fps)"

definition payloads :: "(tcpFrameHeader \<times> byte list) list \<Rightarrow> byte list" where
  "payloads fps = concat (map snd fps)"

definition goodFrame :: "tcpFrameHeader \<times> byte list \<Rightarrow> bool" where
  "goodFrame hP =
     (case hP of (h, P) \<Rightarrow>
        Fin h \<and> Rsv h = (False, False, False) \<and> OpCode h AND 0x0f \<noteq> CloseFrame
        \<and> length P < 2 ^ 63
        \<and> (case MaskingKey h of None \<Rightarrow> True | Some key \<Rightarrow> length key = 4))"

text \<open>
  The reader inside a frame: \<open>k\<close> of the payload bytes of \<open>P\<close> have been read and
  \<open>tail\<close> follows the frame on the stream.
\<close>

definition midFrame :: "Conn \<Rightarrow> byte list \<Rightarrow> nat \<Rightarrow> byte list \<Rightarrow> bool" where
  "midFrame c P k tail =
     (case frameReader c of
        Some (TcpFrame fr) \<Rightarrow>
          k \<le> length P \<and> limitN fr = int (length P) - int k
          \<and> (case MaskingKey (header fr) of
                None \<Rightarrow> pending (frameReaderFactory c) = drop k P @ tail
              | Some key \<Rightarrow>
                  length key = 4 \<and> pos fr = k
                  \<and> pending (frameReaderFactory c) = drop k (xorKey key 0 P) @ tail)
      | _ \<Rightarrow> False)"

subsection \<open>The frames and connections of the examples\<close>

text \<open>The frame of \<open>TestTcpFrameReaderFactory\<close> (frame\_test.go) and what the codec decodes from it.\<close>

definition test_stream :: bufReader where
  "test_stream =
     \<lparr>pending = [0x5A, 0xA5, 0x5A, 0xA5, 0x81, 0x84, 0x0f, 0xff, 0xff, 0x0f, 116, 101, 115, 116],
      rerr = EOF, sched = []\<rparr>"

definition test_frame :: tcpFrameReader where
  "test_frame =
     \<lparr>header = \<lparr>Fin = True, Rsv = (False, False, False), OpCode = 1, Length = 4,
                 MaskingKey = Some [0x0f, 0xff, 0xff, 0x0f],
                 data = Some [0x81, 0x84, 0x0f, 0xff, 0xff, 0x0f]\<rparr>,
      pos = 0, flength = 10, limitN = 4\<rparr>"

text \<open>A text frame and a continuation frame as the codec decodes them, with no payload.\<close>

definition text_frame :: tcpFrameReader where
  "text_frame =
     \<lparr>header = \<lparr>Fin = False, Rsv = (False, False, False), OpCode = 1, Length = 0,
                 MaskingKey = None, data = Some [0x01, 0x00]\<rparr>,
      pos = 0, flength = 2, limitN = 0\<rparr>"

definition continuation_frame :: tcpFrameReader where
  "continuation_frame =
     \<lparr>header = \<lparr>Fin = True, Rsv = (False, False, False), OpCode = 0, Length = 0,
                 MaskingKey = None, data = Some [0x80, 0x00]\<rparr>,
      pos = 0, flength = 2, limitN = 0\<rparr>"

text \<open>The close frame of \<open>TestWriteClose\<close> on a connection that has nothing else to read.\<close>

definition idle_writer :: bufWriter where
  "idle_writer = \<lparr>wbuf = [], sent = [], werr = None, berr = None\<rparr>"

definition close_frame :: tcpFrameReader where
  "close_frame =
     \<lparr>header = \<lparr>Fin = True, Rsv = (False, False, False), OpCode = 8, Length = 2,
                 MaskingKey = None, data = Some [0x88, 0x02]\<rparr>,
      pos = 0, flength = 4, limitN = 2\<rparr>"

definition closing_conn :: Conn where
  "closing_conn =
     NewFrameConnection
       \<lparr>pending = [0x5A, 0xA5, 0x5A, 0xA5, 0x88, 0x02, 0x03, 0xE8], rerr = EOF, sched = []\<rparr>
       idle_writer None [] (TcpFrameHandler zeroHandler) 0"

text \<open>The same close frame on a stream that fails with an error of its own after it.\<close>

definition failing_conn :: Conn where
  "failing_conn =
     NewFrameConnection
       \<lparr>pending = [0x5A, 0xA5, 0x5A, 0xA5, 0x88, 0x02, 0x03, 0xE8], rerr = ErrIO 0, sched = []\<rparr>
       idle_writer None [] (TcpFrameHandler zeroHandler) 0"

text \<open>A connection as \<open>NewFrameConnection\<close> builds it, over a stream that accepts every byte.\<close>

definition writing_conn :: Conn where
  "writing_conn =
     NewFrameConnection \<lparr>pending = [], rerr = EOF, sched = []\<rparr> idle_writer None []
       (TcpFrameHandler zeroHandler) 0"

text \<open>
  Two more connections: one whose stream refuses every byte and whose \<open>Close\<close> fails as
  well, one whose stream accepts the bytes and whose \<open>Close\<close> fails.
\<close>

definition refusing_conn :: Conn where
  "refusing_conn =
     NewFrameConnection \<lparr>pending = [], rerr = EOF, sched = []\<rparr>
       (idle_writer\<lparr>werr := Some (ErrIO 0)\<rparr>) (Some (ErrIO 1)) [] (TcpFrameHandler zeroHandler) 0"

definition unclosable_conn :: Conn where
  "unclosable_conn =
     NewFrameConnection \<lparr>pending = [], rerr = EOF, sched = []\<rparr>
       idle_writer (Some (ErrIO 1)) [] (TcpFrameHandler zeroHandler) 0"

text \<open>
  A writer that masks, with the random source delivering the key DE AD BE EF and then
  two more keys; a writer whose payload type is the close opcode; and a peer: a fresh
  connection whose stream delivers the given bytes in pieces of the given sizes.
\<close>

definition masking_conn :: Conn where
  "masking_conn =
     writing_conn\<lparr>frameWriterFactory :=
                    (frameWriterFactory writing_conn)\<lparr>needMaskingKey := True,
                                                      entropy := [0xDE, 0xAD, 0xBE, 0xEF,
                                                                  0x01, 0x02, 0x03, 0x04,
                                                                  0xCA, 0xFE, 0xBA, 0xBE]\<rparr>,
                  PayloadType := BinaryFrame\<rparr>"

definition close_typed_conn :: Conn where
  "close_typed_conn = writing_conn\<lparr>PayloadType := CloseFrame\<rparr>"

definition peer :: "byte list \<Rightarrow> nat list \<Rightarrow> Conn" where
  "peer bs pieces =
     NewFrameConnection \<lparr>pending = bs, rerr = EOF, sched = pieces\<rparr>
       idle_writer None [] (TcpFrameHandler zeroHandler) 0"

text \<open>
  The frame-too-large case of \<open>TestConnReadFrame\<close>: a text frame of 12 bytes, read with
  \<open>MaxPayloadBytes = 10\<close>; the same bytes with the close opcode; a binary frame of 10
  bytes on a connection with the same ceiling.
\<close>

definition small_conn :: "byte list \<Rightarrow> Conn" where
  "small_conn bs =
     NewFrameConnection \<lparr>pending = bs, rerr = EOF, sched = []\<rparr> idle_writer None []
       (TcpFrameHandler zeroHandler) 10"

definition twelve :: "byte list" where
  "twelve = [1, 2, 3, 4, 5, 6, 7, 8, 9, 10, 11, 12]"

definition text_12 :: tcpFrameReader where
  "text_12 =
     \<lparr>header = \<lparr>Fin = True, Rsv = (False, False, False), OpCode = 1, Length = 12,
                 MaskingKey = None, data = Some [0x81, 12]\<rparr>,
      pos = 0, flength = 14, limitN = 12\<rparr>"

definition close_12 :: tcpFrameReader where
  "close_12 =
     \<lparr>header = \<lparr>Fin = True, Rsv = (False, False, False), OpCode = 8, Length = 12,
                 MaskingKey = None, data = Some [0x88, 12]\<rparr>,
      pos = 0, flength = 14, limitN = 12\<rparr>"

text \<open>
  Two handlers of another type: one answers every frame with a reader of its own over the
  12 bytes, the other hands the decoded frame back.
\<close>

definition other_12 :: otherFrameReader where
  "other_12 = \<lparr>o_payload = twelve, o_type = 2, o_len = 12\<rparr>"

definition wrapping_conn :: Conn where
  "wrapping_conn =
     NewFrameConnection \<lparr>pending = [0x5A, 0xA5, 0x5A, 0xA5, 0x81, 12] @ twelve, rerr = EOF, sched = []\<rparr>
       idle_writer None []
       (OtherFrameHandler (\<lambda>frame. (Some (OtherFrame other_12), None)) (\<lambda>f status. (None, f))) 10"

definition passing_conn :: Conn where
  "passing_conn =
     NewFrameConnection \<lparr>pending = [0x5A, 0xA5, 0x5A, 0xA5, 0x81, 12] @ twelve, rerr = EOF, sched = []\<rparr>
       idle_writer None []
       (OtherFrameHandler (\<lambda>frame. (Some frame, None)) (\<lambda>f status. (None, f))) 10"

text \<open>
  A message of \<open>n\<close> zero bytes, the header of an unmasked text frame as \<open>NewFrameWriter\<close>
  makes it, and a stream that delivers the given bytes and then ends.
\<close>

definition zeros :: "nat \<Rightarrow> byte list" where
  "zeros n = replicate n 0"

definition text_header :: tcpFrameHeader where
  "text_header = zeroHeader\<lparr>Fin := True, OpCode := TextFrame\<rparr>"

definition stream_of :: "byte list \<Rightarrow> bufReader" where
  "stream_of bs = \<lparr>pending = bs, rerr = EOF, sched = []\<rparr>"

section \<open>What a decoded header tells about the stream\<close>

lemma ReadByte_Inr:
  "ReadByte r = Inr (b, r') \<Longrightarrow>
     pending r = b # pending r' \<and> rerr r' = rerr r \<and> sched r' = sched r"
  by (auto simp: ReadByte_def split: list.splits)

lemma checkPreambule_Inr:
  "checkPreambule ps r = Inr r' \<Longrightarrow>
     pending r = ps @ pending r' \<and> rerr r' = rerr r \<and> sched r' = sched r"
proof (induction ps arbitrary: r)
  case Nil
  then show ?case by simp
next
  case (Cons p ps)
  then obtain r1 where a: "ReadByte r = Inr (p, r1)" and b: "checkPreambule ps r1 = Inr r'"
    by (auto split: sum.splits if_splits)
  from Cons.IH [OF b] ReadByte_Inr [OF a] show ?case by simp
qed

lemma readLengthFields_Inr:
  "readLengthFields n hdr len r = Inr (hdr', len', r') \<Longrightarrow>
     \<exists>bs. length bs = n \<and> hdr' = hdr @ bs \<and> pending r = bs @ pending r'
        \<and> rerr r' = rerr r \<and> sched r' = sched r"
proof (induction n arbitrary: hdr len r)
  case 0
  then show ?case by simp
next
  case (Suc n)
  then obtain b r1 where a: "ReadByte r = Inr (b, r1)"
    and b: "readLengthFields n (hdr @ [b]) (len * 256 + ucast b) r1 = Inr (hdr', len', r')"
    by (auto split: sum.splits)
  from Suc.IH [OF b] obtain bs where
    "length bs = n" "hdr' = (hdr @ [b]) @ bs" "pending r1 = bs @ pending r'"
    "rerr r' = rerr r1" "sched r' = sched r1"
    by blast
  with ReadByte_Inr [OF a] show ?case
    by (intro exI [of _ "b # bs"]) simp
qed

lemma readMaskingKey_Inr:
  "readMaskingKey n hdr key r = Inr (hdr', key', r') \<Longrightarrow>
     \<exists>bs. length bs = n \<and> hdr' = hdr @ bs \<and> key' = key @ bs \<and> pending r = bs @ pending r'
        \<and> rerr r' = rerr r \<and> sched r' = sched r"
proof (induction n arbitrary: hdr key r)
  case 0
  then show ?case by simp
next
  case (Suc n)
  then obtain b r1 where a: "ReadByte r = Inr (b, r1)"
    and b: "readMaskingKey n (hdr @ [b]) (key @ [b]) r1 = Inr (hdr', key', r')"
    by (auto split: sum.splits)
  from Suc.IH [OF b] obtain bs where
    "length bs = n" "hdr' = (hdr @ [b]) @ bs" "key' = (key @ [b]) @ bs" "pending r1 = bs @ pending r'"
    "rerr r' = rerr r1" "sched r' = sched r1"
    by blast
  with ReadByte_Inr [OF a] show ?case
    by (intro exI [of _ "b # bs"]) simp
qed

text \<open>What a successful decode tells about the stream and the frame.\<close>

lemma NewFrameReader_Inr:
  assumes "NewFrameReader buf = Inr (frame, buf')"
  shows "\<exists>hdr. data (header frame) = Some hdr
           \<and> pending buf = preambule @ hdr @ pending buf'
           \<and> rerr buf' = rerr buf \<and> sched buf' = sched buf
           \<and> 2 \<le> length hdr \<and> length hdr \<le> 14
           \<and> flength frame = of_nat (length hdr) + Length (header frame)
           \<and> limitN frame = sint (Length (header frame))
           \<and> pos frame = 0
           \<and> OpCode (header frame) = hd hdr AND 0x0f
           \<and> (\<forall>key. MaskingKey (header frame) = Some key \<longrightarrow> length key = 4)"
proof -
  from assms obtain r0 b1 r1 b2 r2 hdr3 len r3 hdr4 key where
    a: "checkPreambule preambule buf = Inr r0" and
    b: "ReadByte r0 = Inr (b1, r1)" and
    c: "ReadByte r1 = Inr (b2, r2)" and
    d: "readLengthFields (if b2 AND 0x7f \<le> 125 then 0 else if b2 AND 0x7f = 126 then 2 else if b2 AND 0x7f = 127 then 8 else 0) [b1, b2]
          (if b2 AND 0x7f \<le> 125 then ucast (b2 AND 0x7f) else 0) r2 = Inr (hdr3, len, r3)" and
    e: "(if b2 AND 0x80 \<noteq> 0 then readMaskingKey 4 hdr3 [] r3 else Inr (hdr3, [], r3)) = Inr (hdr4, key, buf')" and
    f: "frame = \<lparr>header =
                  \<lparr>Fin = (b1 AND 0x80 \<noteq> 0),
                   Rsv = (drop_bit 6 b1 AND 1 \<noteq> 0, drop_bit 5 b1 AND 1 \<noteq> 0, drop_bit 4 b1 AND 1 \<noteq> 0),
                   OpCode = b1 AND 0x0f,
                   Length = len,
                   MaskingKey = (if b2 AND 0x80 \<noteq> 0 then Some key else None),
                   data = Some hdr4\<rparr>,
                pos = 0,
                flength = of_nat (length hdr4) + len,
                limitN = sint len\<rparr>"
    unfolding NewFrameReader_def Let_def
    by (auto split: sum.splits prod.splits)
  note a' = checkPreambule_Inr [OF a]
  note b' = ReadByte_Inr [OF b]
  note c' = ReadByte_Inr [OF c]
  from readLengthFields_Inr [OF d] obtain bs where
    d': "length bs \<le> 8" "hdr3 = [b1, b2] @ bs" "pending r2 = bs @ pending r3"
        "rerr r3 = rerr r2" "sched r3 = sched r2"
    by (fastforce split: if_splits)
  have "\<exists>ks. length ks \<le> 4 \<and> hdr4 = hdr3 @ ks \<and> pending r3 = ks @ pending buf'
          \<and> rerr buf' = rerr r3 \<and> sched buf' = sched r3
          \<and> (b2 AND 0x80 \<noteq> 0 \<longrightarrow> length key = 4)"
  proof (cases "b2 AND 0x80 \<noteq> 0")
    case True
    with e have "readMaskingKey 4 hdr3 [] r3 = Inr (hdr4, key, buf')" by simp
    from readMaskingKey_Inr [OF this] True show ?thesis by auto
  next
    case False
    with e show ?thesis by auto
  qed
  then obtain ks where
    e': "length ks \<le> 4" "hdr4 = hdr3 @ ks" "pending r3 = ks @ pending buf'"
      "rerr buf' = rerr r3" "sched buf' = sched r3"
      "b2 AND 0x80 \<noteq> 0 \<longrightarrow> length key = 4"
    by blast
  show ?thesis
    using a' b' c' d' e' f by (intro exI [of _ hdr4]) auto
qed

section \<open>Big-endian lengths and the bits of the two fixed header bytes\<close>

lemma mul256: "(x :: 'a::len word) * 256 = push_bit 8 x"
  by (simp add: push_bit_eq_mult)

lemma byte_consts: "(15 :: 8 word) = mask 4" "(127 :: 8 word) = mask 7" "(128 :: 8 word) = 2 ^ 7"
  by (simp_all add: mask_eq_exp_minus_1)

lemma shift_in: "(x :: 64 word) * 256 + ucast (b :: 8 word) = push_bit 8 x OR ucast b"
  unfolding mul256
  by (rule disjunctive_add) (auto simp: bit_simps dest: bit_imp_le_length)

lemma be_step:
  "drop_bit (8 + s) (v :: 64 word) * 256 + ucast (ucast (drop_bit s v) :: 8 word) = drop_bit s v"
  unfolding shift_in
proof (rule bit_word_eqI)
  fix n assume n: "n < LENGTH(64)"
  show "bit (push_bit 8 (drop_bit (8 + s) v) OR ucast (ucast (drop_bit s v) :: 8 word)) n \<longleftrightarrow> bit (drop_bit s v) n"
  proof (cases "n < 8")
    case True
    then show ?thesis by (simp add: bit_simps add.commute)
  next
    case False
    then have "8 + s + (n - 8) = s + n" by simp
    with False n show ?thesis by (simp add: bit_simps)
  qed
qed

lemma be16:
  "ucast (ucast (drop_bit 8 (v :: 16 word)) :: 8 word) * 256 + ucast (ucast v :: 8 word) = (ucast v :: 64 word)"
  unfolding shift_in
proof (rule bit_word_eqI)
  fix n assume n: "n < LENGTH(64)"
  show "bit (push_bit 8 (ucast (ucast (drop_bit 8 v) :: 8 word) :: 64 word) OR ucast (ucast v :: 8 word)) n \<longleftrightarrow> bit (ucast v :: 64 word) n"
  proof (cases "n < 8")
    case True
    then show ?thesis by (simp add: bit_simps)
  next
    case False
    then have "8 + (n - 8) = n" by simp
    moreover have "bit v n \<Longrightarrow> n < 16" using bit_imp_le_length [of v n] by simp
    ultimately show ?thesis using False n by (auto simp add: bit_simps)
  qed
qed

lemma be64:
  fixes v :: "64 word"
  shows "(((((((ucast (ucast (drop_bit 56 v) :: 8 word) * 256 + ucast (ucast (drop_bit 48 v) :: 8 word)) * 256
   + ucast (ucast (drop_bit 40 v) :: 8 word)) * 256 + ucast (ucast (drop_bit 32 v) :: 8 word)) * 256
   + ucast (ucast (drop_bit 24 v) :: 8 word)) * 256 + ucast (ucast (drop_bit 16 v) :: 8 word)) * 256
   + ucast (ucast (drop_bit 8 v) :: 8 word)) * 256 + ucast (ucast v :: 8 word)) = v"
proof -
  have z: "drop_bit 64 v = 0" by (simp add: drop_bit_eq_zero_iff_not_bit_last)
  have s7: "ucast (ucast (drop_bit 56 v) :: 8 word) = drop_bit 56 v"
    using be_step [of 56 v] z by simp
  show ?thesis
    unfolding s7
    using be_step [of 48 v] be_step [of 40 v] be_step [of 32 v] be_step [of 24 v]
      be_step [of 16 v] be_step [of 8 v] be_step [of 0 v]
    by simp
qed

lemma sint_of_nat64: "n < 2 ^ 63 \<Longrightarrow> sint (of_nat n :: 64 word) = int n"
  by (simp add: signed_of_nat signed_take_bit_int_eq_self)

lemma high_bit_masked: "m \<le> k \<Longrightarrow> ((2 ^ k OR t) AND mask m :: 'a::len word) = t AND mask m"
  by (rule bit_word_eqI) (auto simp add: bit_simps)

lemma ind_take:
  fixes y :: "'a::len word"
  shows "(2 ^ k OR take_bit k y) AND mask k = take_bit k y"
    and "take_bit k y AND mask k = take_bit k y"
    and "(2 ^ k OR take_bit k y) AND 2 ^ k = 2 ^ k"
    and "take_bit k y AND 2 ^ k = 0"
  by (rule bit_word_eqI, auto simp add: bit_simps)+

lemma small_take: "n < 2 ^ k \<Longrightarrow> (of_nat n :: 'a::len word) = take_bit k (of_nat n :: 'a word)"
  by (simp add: take_bit_of_nat take_bit_nat_eq_self)

lemma ind_small:
  assumes "n \<le> 125"
  shows "(0x80 OR of_nat n :: 8 word) AND 0x7f = of_nat n"
    and "(of_nat n :: 8 word) AND 0x7f = of_nat n"
    and "(0x80 OR of_nat n :: 8 word) AND 0x80 \<noteq> 0"
    and "(of_nat n :: 8 word) AND 0x80 = 0"
    and "(of_nat n :: 8 word) \<le> 125"
    and "(ucast (of_nat n :: 8 word) :: 64 word) = of_nat n"
proof -
  from assms have "n < 2 ^ 7" by simp
  note t = small_take [OF this, where ?'a = 8]
  show "(0x80 OR of_nat n :: 8 word) AND 0x7f = of_nat n"
    unfolding byte_consts by (subst (1 2) t) (rule ind_take)
  show "(of_nat n :: 8 word) AND 0x7f = of_nat n"
    unfolding byte_consts by (subst (1 2) t) (rule ind_take)
  have "(0x80 OR of_nat n :: 8 word) AND 0x80 = 2 ^ 7"
    unfolding byte_consts by (subst t) (rule ind_take)
  then show "(0x80 OR of_nat n :: 8 word) AND 0x80 \<noteq> 0" by simp
  show "(of_nat n :: 8 word) AND 0x80 = 0"
    unfolding byte_consts by (subst t) (rule ind_take)
  show "(of_nat n :: 8 word) \<le> 125"
    using assms by (simp add: word_le_nat_alt unat_of_nat)
  show "(ucast (of_nat n :: 8 word) :: 64 word) = of_nat n"
    using assms by (simp add: unsigned_of_nat take_bit_nat_eq_self)
qed

lemma ucast16: "n < 65536 \<Longrightarrow> (ucast (of_nat n :: 16 word) :: 64 word) = of_nat n"
  by (simp add: unsigned_of_nat take_bit_nat_eq_self)

lemma ReadByte_Cons:
  "pending r = b # bs \<Longrightarrow> ReadByte r = Inr (b, r\<lparr>pending := bs\<rparr>)"
  by (simp add: ReadByte_def)

lemma checkPreambule_ok:
  "pending r = ps @ rest \<Longrightarrow> checkPreambule ps r = Inr (r\<lparr>pending := rest\<rparr>)"
  by (induction ps arbitrary: r) (simp_all add: ReadByte_def)

lemma readMaskingKey_ok:
  "pending r = bs @ rest \<Longrightarrow>
     readMaskingKey (length bs) hdr key r = Inr (hdr @ bs, key @ bs, r\<lparr>pending := rest\<rparr>)"
  by (induction bs arbitrary: r hdr key) (simp_all add: ReadByte_def)

text \<open>The second header byte and the extended length, as \<open>writeHeader\<close> lays them out.\<close>

lemma writeHeader_eq:
  "writeHeader h n =
     hd (writeHeader h n) #
     (if n \<le> 125 then [(if MaskingKey h \<noteq> None then 0x80 else 0) OR of_nat n]
      else if n < 65536 then AppendUint16 [(if MaskingKey h \<noteq> None then 0x80 else 0) OR 126] (of_nat n)
      else AppendUint64 [(if MaskingKey h \<noteq> None then 0x80 else 0) OR 127] (of_nat n))"
  by (simp add: writeHeader_def Let_def AppendUint16_def AppendUint64_def)

lemma readLengthFields_0: "readLengthFields 0 hdr len r = Inr (hdr, len, r)"
  by simp

lemma readLengthFields_be16:
  fixes v :: "16 word"
  assumes "pending r = ucast (drop_bit 8 v) # ucast v # rest"
  shows "readLengthFields 2 hdr 0 r =
           Inr (hdr @ [ucast (drop_bit 8 v), ucast v], ucast v, r\<lparr>pending := rest\<rparr>)"
proof -
  have "readLengthFields 2 hdr 0 r =
          Inr (hdr @ [ucast (drop_bit 8 v), ucast v],
               (0 * 256 + ucast (ucast (drop_bit 8 v) :: 8 word)) * 256 + ucast (ucast v :: 8 word),
               r\<lparr>pending := rest\<rparr>)"
    using assms by (simp add: numeral_2_eq_2 ReadByte_def)
  also have "(0 * 256 + ucast (ucast (drop_bit 8 v) :: 8 word)) * 256 + ucast (ucast v :: 8 word)
               = (ucast v :: 64 word)"
    using be16 [of v] by simp
  finally show ?thesis .
qed

lemma readLengthFields_be64:
  fixes v :: "64 word"
  assumes "pending r = ucast (drop_bit 56 v) # ucast (drop_bit 48 v) # ucast (drop_bit 40 v) #
             ucast (drop_bit 32 v) # ucast (drop_bit 24 v) # ucast (drop_bit 16 v) #
             ucast (drop_bit 8 v) # ucast v # rest"
  shows "readLengthFields 8 hdr 0 r =
           Inr (hdr @ [ucast (drop_bit 56 v), ucast (drop_bit 48 v), ucast (drop_bit 40 v),
                       ucast (drop_bit 32 v), ucast (drop_bit 24 v), ucast (drop_bit 16 v),
                       ucast (drop_bit 8 v), ucast v], v, r\<lparr>pending := rest\<rparr>)"
proof -
  have "readLengthFields 8 hdr 0 r =
          Inr (hdr @ [ucast (drop_bit 56 v), ucast (drop_bit 48 v), ucast (drop_bit 40 v),
                       ucast (drop_bit 32 v), ucast (drop_bit 24 v), ucast (drop_bit 16 v),
                       ucast (drop_bit 8 v), ucast v],
               (((((((0 * 256 + ucast (ucast (drop_bit 56 v) :: 8 word)) * 256
                 + ucast (ucast (drop_bit 48 v) :: 8 word)) * 256
                 + ucast (ucast (drop_bit 40 v) :: 8 word)) * 256 + ucast (ucast (drop_bit 32 v) :: 8 word)) * 256
                 + ucast (ucast (drop_bit 24 v) :: 8 word)) * 256 + ucast (ucast (drop_bit 16 v) :: 8 word)) * 256
                 + ucast (ucast (drop_bit 8 v) :: 8 word)) * 256 + ucast (ucast v :: 8 word),
               r\<lparr>pending := rest\<rparr>)"
    using assms by (simp add: eval_nat_numeral ReadByte_def del: mult_numeral_left_semiring_numeral distrib_right_numeral distrib_left_numeral)
  also have "(((((((0 * 256 + ucast (ucast (drop_bit 56 v) :: 8 word)) * 256
                 + ucast (ucast (drop_bit 48 v) :: 8 word)) * 256
                 + ucast (ucast (drop_bit 40 v) :: 8 word)) * 256 + ucast (ucast (drop_bit 32 v) :: 8 word)) * 256
                 + ucast (ucast (drop_bit 24 v) :: 8 word)) * 256 + ucast (ucast (drop_bit 16 v) :: 8 word)) * 256
                 + ucast (ucast (drop_bit 8 v) :: 8 word)) * 256 + ucast (ucast v :: 8 word) = v"
    using be64 [of v] by (simp only: mult_zero_left add_0_left)
  finally show ?thesis .
qed

lemma maskbit:
  "(((if c then 0x80 else 0) OR 126 :: 8 word) AND 0x7f) = 126"
  "(((if c then 0x80 else 0) OR 127 :: 8 word) AND 0x7f) = 127"
  "(((if c then 0x80 else 0) OR 126 :: 8 word) AND 0x80 \<noteq> 0) = c"
  "(((if c then 0x80 else 0) OR 127 :: 8 word) AND 0x80 \<noteq> 0) = c"
  by (cases c; simp)+

lemma maskbit_small:
  "n \<le> 125 \<Longrightarrow> (((if c then 0x80 else 0) OR of_nat n :: 8 word) AND 0x7f) = of_nat n"
  "n \<le> 125 \<Longrightarrow> (((if c then 0x80 else 0) OR of_nat n :: 8 word) AND 0x80 \<noteq> 0) = c"
  by (cases c; simp add: ind_small)+

text \<open>Decoding what the writer laid out: the header of a frame written for \<open>n\<close> payload bytes.\<close>

lemma NewFrameReader_writeHeader:
  assumes key: "case MaskingKey h of None \<Rightarrow> key = [] | Some k \<Rightarrow> key = k \<and> length k = 4"
    and p: "pending buf = preambule @ writeHeader h n @ key @ rest"
  shows "\<exists>frame. NewFrameReader buf = Inr (frame, buf\<lparr>pending := rest\<rparr>)
           \<and> Length (header frame) = of_nat n
           \<and> limitN frame = sint (of_nat n :: 64 word)
           \<and> pos frame = 0
           \<and> MaskingKey (header frame) = MaskingKey h
           \<and> OpCode (header frame) = hd (writeHeader h n) AND 0x0f
           \<and> data (header frame) = Some (writeHeader h n @ key)
           \<and> flength frame = of_nat (length (writeHeader h n @ key)) + of_nat n"
proof -
  define b where "b = hd (writeHeader h n)"
  define c where "c = (MaskingKey h \<noteq> None)"
  define r0 where "r0 = buf\<lparr>pending := writeHeader h n @ key @ rest\<rparr>"
  have pre: "checkPreambule preambule buf = Inr r0"
    unfolding r0_def using p by (intro checkPreambule_ok) simp
  have mk: "(if c then readMaskingKey 4 hdr [] (buf\<lparr>pending := key @ rest\<rparr>)
             else Inr (hdr, [], buf\<lparr>pending := key @ rest\<rparr>))
            = Inr (hdr @ key, key, buf\<lparr>pending := rest\<rparr>)" for hdr
  proof (cases "MaskingKey h")
    case None
    with key show ?thesis by (simp add: c_def)
  next
    case (Some k)
    with key have k: "key = k" "length key = 4" by auto
    have "readMaskingKey (length key) hdr [] (buf\<lparr>pending := key @ rest\<rparr>)
            = Inr (hdr @ key, [] @ key, buf\<lparr>pending := key @ rest, pending := rest\<rparr>)"
      by (rule readMaskingKey_ok) simp
    with Some k show ?thesis by (simp add: c_def)
  qed
  have mkey: "(if c then Some key else None) = MaskingKey h"
    using key by (cases "MaskingKey h") (auto simp: c_def)
  consider (small) "n \<le> 125" | (mid) "125 < n" "n < 65536" | (big) "65536 \<le> n" by linarith
  then show ?thesis
  proof cases
    case small
    then have w: "writeHeader h n = [b, (if c then 0x80 else 0) OR of_nat n]"
      using writeHeader_eq [of h n] by (simp add: b_def c_def)
    show ?thesis
      unfolding NewFrameReader_def pre
      by (simp add: r0_def w ReadByte_def Let_def maskbit_small [OF small] ind_small [OF small] mk mkey)
  next
    case mid
    then have w: "writeHeader h n = [b, (if c then 0x80 else 0) OR 126,
                    ucast (drop_bit 8 (of_nat n :: 16 word)), ucast (of_nat n :: 16 word)]"
      using writeHeader_eq [of h n] by (simp add: b_def c_def AppendUint16_def)
    from mid have u: "(ucast (of_nat n :: 16 word) :: 64 word) = of_nat n" by (simp add: ucast16)
    show ?thesis
      unfolding NewFrameReader_def pre
      by (simp add: r0_def w ReadByte_def Let_def maskbit readLengthFields_be16 u mk mkey)
  next
    case big
    then have w: "writeHeader h n = [b, (if c then 0x80 else 0) OR 127,
                    ucast (drop_bit 56 (of_nat n :: 64 word)), ucast (drop_bit 48 (of_nat n :: 64 word)),
                    ucast (drop_bit 40 (of_nat n :: 64 word)), ucast (drop_bit 32 (of_nat n :: 64 word)),
                    ucast (drop_bit 24 (of_nat n :: 64 word)), ucast (drop_bit 16 (of_nat n :: 64 word)),
                    ucast (drop_bit 8 (of_nat n :: 64 word)), ucast (of_nat n :: 64 word)]"
      using writeHeader_eq [of h n] by (simp add: b_def c_def AppendUint64_def)
    show ?thesis
      unfolding NewFrameReader_def pre
      by (simp add: r0_def w ReadByte_def Let_def maskbit readLengthFields_be64 mk mkey)
  qed
qed

text \<open>The equations of the loops are unfolded by hand, one round at a time.\<close>

declare io_Copy_Discard.simps [simp del] io_ReadAll.simps [simp del]
  Conn_Read.simps [simp del] ReadFrame_loop.simps [simp del]

section \<open>One read of a frame's payload\<close>

lemma keyInRange_4: "length key = 4 \<Longrightarrow> keyInRange key p n"
  by (simp add: keyInRange_def list_all_iff)

lemma length_xorKey [simp]: "length (xorKey key p msg) = length msg"
  by (simp add: xorKey_def)

lemma xorKey_nth:
  "i < length msg \<Longrightarrow> xorKey key p msg ! i = msg ! i XOR key ! ((p + i) mod 4)"
  by (simp add: xorKey_def nth_enumerate_eq)

lemma xorKey_Nil [simp]: "xorKey key p [] = []"
  by (simp add: xorKey_def)

text \<open>Unmasking a piece of the masked payload, at its position, gives the piece of the payload.\<close>

lemma unmask_piece:
  "xorKey key k (take n (drop k (xorKey key 0 P))) = take n (drop k P)"
proof (rule nth_equalityI)
  show "length (xorKey key k (take n (drop k (xorKey key 0 P)))) = length (take n (drop k P))"
    by simp
next
  fix i assume "i < length (xorKey key k (take n (drop k (xorKey key 0 P))))"
  then have i: "i < n" "k + i < length P" by auto
  then show "xorKey key k (take n (drop k (xorKey key 0 P))) ! i = take n (drop k P) ! i"
    by (simp add: xorKey_nth xor.assoc)
qed

lemma tcpFrameReader_Read_done:
  assumes "limitN fr \<le> 0"
  shows "tcpFrameReader_Read fr m buf = (([], Some EOF), fr, buf)"
  using assms
  by (simp add: tcpFrameReader_Read_def LimitedReader_Read_def keyInRange_def split: option.splits)

lemma tcpFrameReader_Read_dry:
  assumes "0 < limitN fr" "pending buf = []" "0 < m"
  shows "tcpFrameReader_Read fr m buf = (([], Some (rerr buf)), fr, buf)"
  using assms
  by (simp add: tcpFrameReader_Read_def LimitedReader_Read_def bufio_Read_def keyInRange_def
        split: option.splits)

lemma tcpFrameReader_Read_data:
  assumes "0 < limitN fr" "pending buf \<noteq> []" "0 < m"
    and key: "\<And>key. MaskingKey (header fr) = Some key \<Longrightarrow> length key = 4"
  shows "\<exists>n fr' buf'.
           tcpFrameReader_Read fr m buf =
             (((case MaskingKey (header fr) of
                  None \<Rightarrow> take n (pending buf)
                | Some key \<Rightarrow> xorKey key (pos fr) (take n (pending buf))), None), fr', buf')
         \<and> 0 < n \<and> n \<le> m \<and> int n \<le> limitN fr \<and> n \<le> length (pending buf)
         \<and> header fr' = header fr \<and> limitN fr' = limitN fr - int n
         \<and> (MaskingKey (header fr) \<noteq> None \<longrightarrow> pos fr' = pos fr + n)
         \<and> pending buf' = drop n (pending buf) \<and> rerr buf' = rerr buf"
proof -
  define m' where "m' = (if int m > limitN fr then nat (limitN fr) else m)"
  define k where "k = (case sched buf of [] \<Rightarrow> length (pending buf) | k # _ \<Rightarrow> k)"
  define n where "n = min m' (min (length (pending buf)) (max 1 k))"
  have m': "0 < m'" "m' \<le> m" "int m' \<le> limitN fr"
    using assms(1,3) by (auto simp: m'_def)
  have n: "0 < n" "n \<le> m" "int n \<le> limitN fr" "n \<le> length (pending buf)"
    using m' assms(2) by (auto simp: n_def min_def max_def)
  have b: "bufio_Read m' buf =
             ((take n (pending buf), None), buf\<lparr>pending := drop n (pending buf), sched := tl (sched buf)\<rparr>)"
    using m' assms(2) by (simp add: bufio_Read_def Let_def n_def k_def)
  have l: "LimitedReader_Read (limitN fr) m buf =
             ((take n (pending buf), None), limitN fr - int n,
              buf\<lparr>pending := drop n (pending buf), sched := tl (sched buf)\<rparr>)"
    using assms(1) n b by (simp add: LimitedReader_Read_def Let_def m'_def min_def)
  show ?thesis
  proof (cases "MaskingKey (header fr)")
    case None
    then show ?thesis
      using l n by (intro exI [of _ n]) (simp add: tcpFrameReader_Read_def)
  next
    case (Some key')
    then have "keyInRange key' (pos fr) n" using key keyInRange_4 by blast
    with Some show ?thesis
      using l n by (intro exI [of _ n]) (simp add: tcpFrameReader_Read_def min_def)
  qed
qed

section \<open>Draining a frame\<close>

lemma io_Copy_Discard_tcp:
  assumes key: "\<And>key. MaskingKey (header fr) = Some key \<Longrightarrow> length key = 4"
  shows "\<exists>fr' buf'.
           io_Copy_Discard (TcpFrame fr) buf =
             ((if limitN fr \<le> int (length (pending buf)) \<or> rerr buf = EOF then None
               else Some (rerr buf)), fr', buf')
         \<and> pending buf' = drop (nat (limitN fr)) (pending buf) \<and> rerr buf' = rerr buf"
  using key
proof (induction "length (pending buf)" arbitrary: fr buf rule: less_induct)
  case less
  consider (drained) "limitN fr \<le> 0" | (dry) "0 < limitN fr" "pending buf = []"
    | (data) "0 < limitN fr" "pending buf \<noteq> []" by fastforce
  then show ?case
  proof cases
    case drained
    then show ?thesis
      by (subst io_Copy_Discard.simps) (simp add: tcpFrameReader_Read_done)
  next
    case dry
    then show ?thesis
      by (subst io_Copy_Discard.simps) (simp add: tcpFrameReader_Read_dry)
  next
    case data
    from tcpFrameReader_Read_data [OF data, of 8192] less.prems
    obtain n bs fr' buf' where
      r: "tcpFrameReader_Read fr 8192 buf = ((bs, None), fr', buf')"
      and n: "0 < n" "int n \<le> limitN fr" "n \<le> length (pending buf)"
      and f: "header fr' = header fr" "limitN fr' = limitN fr - int n"
      and b: "pending buf' = drop n (pending buf)" "rerr buf' = rerr buf"
      by (metis zero_less_numeral)
    have "length (pending buf') < length (pending buf)" using n b data by simp
    from less.hyps [OF this, of fr'] less.prems f
    obtain fr'' buf'' where
      d: "io_Copy_Discard (TcpFrame fr') buf' =
             ((if limitN fr' \<le> int (length (pending buf')) \<or> rerr buf' = EOF then None
               else Some (rerr buf')), fr'', buf'')"
      and p: "pending buf'' = drop (nat (limitN fr')) (pending buf')" "rerr buf'' = rerr buf'"
      by auto
    have "nat (limitN fr - int n) + n = nat (limitN fr)" using n by simp
    then have "drop (nat (limitN fr')) (pending buf') = drop (nat (limitN fr)) (pending buf)"
      using f b by simp
    moreover have "(limitN fr' \<le> int (length (pending buf'))) = (limitN fr \<le> int (length (pending buf)))"
      using f b n by auto
    ultimately show ?thesis
      using r d p b by (subst io_Copy_Discard.simps) simp
  qed
qed

lemma io_ReadAll_other:
  "io_ReadAll (OtherFrame fr) buf = ((o_payload fr, None), OtherFrame (fr\<lparr>o_payload := []\<rparr>), buf)"
proof (induction "length (o_payload fr)" arbitrary: fr rule: less_induct)
  case less
  show ?case
  proof (cases "o_payload fr = []")
    case True
    then show ?thesis
      by (subst io_ReadAll.simps) (simp add: otherFrameReader_Read_def)
  next
    case False
    then have "length (o_payload (fr\<lparr>o_payload := drop 512 (o_payload fr)\<rparr>)) < length (o_payload fr)"
      by simp
    from less [OF this] False show ?thesis
      by (subst io_ReadAll.simps) (simp add: otherFrameReader_Read_def)
  qed
qed

lemma test_decode:
  "NewFrameReader test_stream = Inr (test_frame, test_stream\<lparr>pending := [116, 101, 115, 116]\<rparr>)"
  by code_simp

lemma sint_header_plus:
  fixes L :: "64 word"
  assumes "k \<le> 14" "sint L < 2 ^ 63 - 14"
  shows "sint (of_nat k + L) = int k + sint L"
proof -
  have k: "sint (of_nat k :: 64 word) = int k"
    using assms(1) by (simp add: signed_of_nat signed_take_bit_int_eq_self)
  have lo: "- (2 ^ 63) \<le> sint L" using sint_ge [of L] by simp
  have "sint (of_nat k + L) = signed_take_bit 63 (int k + sint L)"
    by (simp add: sint_word_ariths k)
  also have "\<dots> = int k + sint L"
    using assms lo by (intro signed_take_bit_int_eq_self) simp_all
  finally show ?thesis .
qed

lemma handled_append: "handled h (fs @ gs) = handled (handled h fs) gs"
  by (induction fs arbitrary: h) simp_all

lemma handled_keeps:
  "\<forall>f \<in> set fs. frame_PayloadType f \<noteq> TextFrame \<and> frame_PayloadType f \<noteq> BinaryFrame \<Longrightarrow>
     handled h fs = h"
  by (induction fs arbitrary: h)
     (auto simp: tcpFrameHandler_HandleFrame_def Let_def split: frameReader.splits)

lemma HandleFrame_data:
  "frame_PayloadType f = TextFrame \<or> frame_PayloadType f = BinaryFrame \<Longrightarrow>
     tcpFrameHandler_HandleFrame h f = ((Some f, None), h\<lparr>payloadType := frame_PayloadType f\<rparr>)"
  by (auto simp: tcpFrameHandler_HandleFrame_def Let_def TextFrame_def BinaryFrame_def
        ContinuationFrame_def)

lemma HandleFrame_continuation:
  "OpCode (header fr) = ContinuationFrame \<Longrightarrow>
     tcpFrameHandler_HandleFrame h (TcpFrame fr) =
       ((Some (TcpFrame (fr\<lparr>header := (header fr)\<lparr>OpCode := payloadType h\<rparr>\<rparr>)), None), h)"
  by (simp add: tcpFrameHandler_HandleFrame_def Let_def tcpFrameReader_PayloadType_def)

lemma HandleFrame_close:
  "frame_PayloadType frame = CloseFrame \<Longrightarrow>
     tcpFrameHandler_HandleFrame h frame = ((None, Some EOF), h)"
  by (simp add: tcpFrameHandler_HandleFrame_def Let_def CloseFrame_def ContinuationFrame_def
        TextFrame_def BinaryFrame_def)

lemma HandleFrame_not_close:
  "OpCode (header fr) \<noteq> CloseFrame \<Longrightarrow>
     \<exists>fr' h'. tcpFrameHandler_HandleFrame h (TcpFrame fr) = ((Some (TcpFrame fr'), None), h')
        \<and> MaskingKey (header fr') = MaskingKey (header fr)
        \<and> Length (header fr') = Length (header fr)
        \<and> limitN fr' = limitN fr \<and> pos fr' = pos fr"
  by (simp add: tcpFrameHandler_HandleFrame_def Let_def tcpFrameReader_PayloadType_def)

lemma Conn_Read_close:
  assumes "frameReader conn = None"
    and "frameHandler conn = TcpFrameHandler h"
    and "NewFrameReader (frameReaderFactory conn) = Inr (frame, buf')"
    and "OpCode (header frame) = CloseFrame"
  shows "Conn_Read conn m = (([], Some EOF), conn\<lparr>frameReaderFactory := buf'\<rparr>)"
proof -
  have "tcpFrameHandler_HandleFrame h (TcpFrame frame) = ((None, Some EOF), h)"
    using assms(4) by (intro HandleFrame_close) (simp add: tcpFrameReader_PayloadType_def)
  then show ?thesis
    using assms by (subst Conn_Read.simps) simp
qed

lemma ReadFrame_loop_close:
  assumes "frameHandler conn = TcpFrameHandler h"
    and "NewFrameReader (frameReaderFactory conn) = Inr (frame, buf')"
    and "OpCode (header frame) = CloseFrame"
  shows "ReadFrame_loop conn = (([], Some EOF), conn\<lparr>frameReaderFactory := buf'\<rparr>)"
proof -
  have "tcpFrameHandler_HandleFrame h (TcpFrame frame) = ((None, Some EOF), h)"
    using assms(3) by (intro HandleFrame_close) (simp add: tcpFrameReader_PayloadType_def)
  then show ?thesis
    using assms by (subst ReadFrame_loop.simps) (simp add: Let_def)
qed

subsection \<open>What the writer puts on the stream\<close>

lemma length_writeHeader:
  "length (writeHeader h n) = (if n \<le> 125 then 2 else if n < 65536 then 4 else 10)"
  by (simp add: writeHeader_def Let_def AppendUint16_def AppendUint64_def)

lemma length_wireFrame:
  "length (wireFrame h msg) =
     4 + length (writeHeader h (length msg)) + (case MaskingKey h of None \<Rightarrow> 0 | Some key \<Rightarrow> length key)
       + length msg"
  by (simp add: wireFrame_def preambule_def split: option.splits)

lemma tcpFrameWriter_Write_ok:
  assumes "berr w = None" "werr w = None"
    and "\<And>key. MaskingKey h = Some key \<Longrightarrow> length key = 4"
  shows "tcpFrameWriter_Write h msg w =
           ((length (wireFrame h msg), None),
            w\<lparr>wbuf := [], sent := sent w @ wbuf w @ wireFrame h msg\<rparr>)"
  using assms
  by (cases "MaskingKey h")
     (simp_all add: tcpFrameWriter_Write_def Let_def bufio_Write_def bufio_Flush_def
        wireFrame_def preambule_def)

lemma tcpFrameWriter_Write_fails:
  assumes "berr w = None" "werr w = Some e"
    and "\<And>key. MaskingKey h = Some key \<Longrightarrow> length key = 4"
  shows "tcpFrameWriter_Write h msg w =
           ((length (wireFrame h msg), Some e),
            w\<lparr>wbuf := wbuf w @ wireFrame h msg, berr := Some e\<rparr>)"
  using assms
  by (cases "MaskingKey h")
     (simp_all add: tcpFrameWriter_Write_def Let_def bufio_Write_def bufio_Flush_def
        wireFrame_def preambule_def)

lemma NewFrameWriter_Inr:
  "NewFrameWriter f t = (Inr h, f') \<Longrightarrow>
     Fin h \<and> Rsv h = (False, False, False) \<and> OpCode h = t
     \<and> Writer f' = Writer f \<and> needMaskingKey f' = needMaskingKey f
     \<and> (if needMaskingKey f
         then 4 \<le> length (entropy f) \<and> MaskingKey h = Some (take 4 (entropy f))
              \<and> entropy f' = drop 4 (entropy f)
         else MaskingKey h = None \<and> f' = f)"
  by (auto simp: NewFrameWriter_def generateMaskingKey_def zeroHeader_def Let_def
        split: if_splits option.splits)

lemma NewFrameWriter_key:
  "NewFrameWriter f t = (Inr h, f') \<Longrightarrow> MaskingKey h = Some key \<Longrightarrow> length key = 4"
  by (auto simp: NewFrameWriter_def generateMaskingKey_def zeroHeader_def Let_def
        split: if_splits option.splits)

lemma Conn_Write_ok:
  assumes "NewFrameWriter (frameWriterFactory conn) (PayloadType conn) = (Inr h, f')"
    and "berr (Writer (frameWriterFactory conn)) = None"
    and "werr (Writer (frameWriterFactory conn)) = None"
  shows "Conn_Write conn msg =
      ((length (wireFrame h msg), None),
       conn\<lparr>frameWriterFactory := f'\<lparr>Writer := (Writer f')\<lparr>wbuf := [],
         sent := sent (Writer f') @ wbuf (Writer f') @ wireFrame h msg\<rparr>\<rparr>\<rparr>)"
proof -
  note w = NewFrameWriter_Inr [OF assms(1)]
  have k: "\<And>key. MaskingKey h = Some key \<Longrightarrow> length key = 4"
    using NewFrameWriter_key [OF assms(1)] .
  have "tcpFrameWriter_Write h msg (Writer f') =
          ((length (wireFrame h msg), None),
           (Writer f')\<lparr>wbuf := [], sent := sent (Writer f') @ wbuf (Writer f') @ wireFrame h msg\<rparr>)"
    using assms(2,3) w k by (intro tcpFrameWriter_Write_ok) simp_all
  then show ?thesis
    using assms(1) by (simp add: Conn_Write_def)
qed

lemma AppendUint16_big_endian:
  "\<exists>hi lo. AppendUint16 [] (of_int status) = [hi, lo]
      \<and> uint hi * 256 + uint lo = status mod 65536"
proof -
  define v :: "16 word" where "v = of_int status"
  have u: "uint v = status mod 65536" by (simp add: v_def uint_word_of_int)
  have hi: "uint (ucast (drop_bit 8 v) :: 8 word) = uint v div 256"
  proof -
    have "uint v < 65536" using uint_bounded [of v] by simp
    then have "uint v div 256 < 256" by simp
    moreover have "0 \<le> uint v div 256" using uint_ge_0 [of v] by (simp add: pos_imp_zdiv_nonneg_iff)
    ultimately have "(uint v div 256) mod 256 = uint v div 256" by simp
    then show ?thesis
      by (simp add: unsigned_ucast_eq take_bit_eq_mod drop_bit_eq_div uint_div)
  qed
  have lo: "uint (ucast v :: 8 word) = uint v mod 256"
    by (simp add: unsigned_ucast_eq take_bit_eq_mod)
  show ?thesis
    unfolding AppendUint16_def v_def [symmetric]
    by (intro exI [of _ "ucast (drop_bit 8 v)"] exI [of _ "ucast v"] conjI)
       (simp_all add: hi lo u [symmetric])
qed

lemma ReadFrame_loop_too_large:
  assumes h: "HandleFrame (frameHandler conn) (TcpFrame decoded) = ((Some (TcpFrame r), None), h')"
    and d: "NewFrameReader (frameReaderFactory conn) = Inr (decoded, buf')"
    and big: "ceiling_of conn < sint (Length (header r))"
    and key: "\<And>key. MaskingKey (header r) = Some key \<Longrightarrow> length key = 4"
    and avail: "limitN r \<le> int (length (pending buf')) \<or> rerr buf' = EOF"
  shows "\<exists>conn'. ReadFrame_loop conn = (([], Some ErrFrameTooLarge), conn')
           \<and> pending (frameReaderFactory conn') = drop (nat (limitN r)) (pending buf')
           \<and> frameReader conn' = frameReader conn"
proof -
  from io_Copy_Discard_tcp [of r buf', OF key] avail obtain fr' buf'' where
    c: "io_Copy_Discard (TcpFrame r) buf' = (None, fr', buf'')"
    and p: "pending buf'' = drop (nat (limitN r)) (pending buf')"
    by auto
  show ?thesis
    using h d big c p
    by (subst ReadFrame_loop.simps) (simp add: Let_def ceiling_of_def)
qed

lemma ReadFrame_loop_other:
  assumes h: "HandleFrame (frameHandler conn) (TcpFrame decoded) = ((Some (OtherFrame fr), None), h')"
    and d: "NewFrameReader (frameReaderFactory conn) = Inr (decoded, buf')"
  shows "ReadFrame_loop conn =
           ((o_payload fr, None), conn\<lparr>frameReaderFactory := buf', frameHandler := h'\<rparr>)"
  using h d
  by (subst ReadFrame_loop.simps) (simp add: Let_def io_ReadAll_other)

lemma writeHeader_tail:
  "drop 2 (writeHeader h n) =
     (if n \<le> 125 then []
      else if n < 65536 then [ucast (drop_bit 8 (of_nat n :: 16 word)), ucast (of_nat n :: 16 word)]
      else [ucast (drop_bit 56 (of_nat n :: 64 word)), ucast (drop_bit 48 (of_nat n :: 64 word)),
            ucast (drop_bit 40 (of_nat n :: 64 word)), ucast (drop_bit 32 (of_nat n :: 64 word)),
            ucast (drop_bit 24 (of_nat n :: 64 word)), ucast (drop_bit 16 (of_nat n :: 64 word)),
            ucast (drop_bit 8 (of_nat n :: 64 word)), ucast (of_nat n :: 64 word)])"
  by (simp add: writeHeader_def Let_def AppendUint16_def AppendUint64_def)

lemma writeHeader_indicator:
  "writeHeader h n ! 1 AND 0x7f =
     (if n \<le> 125 then of_nat n else if n < 65536 then 126 else 127)"
  using maskbit [of "MaskingKey h \<noteq> None"] maskbit_small [of n "MaskingKey h \<noteq> None"]
  by (simp add: writeHeader_def Let_def AppendUint16_def AppendUint64_def)

lemma length_zeros: "length (zeros n) = n"
  by (simp add: zeros_def)

lemma text_header_key: "MaskingKey text_header = Some key \<Longrightarrow> length key = 4"
  by (simp add: text_header_def zeroHeader_def)

lemma stream_of_wire: "pending (stream_of (wireFrame h msg)) = wireFrame h msg @ []"
  by (simp add: stream_of_def)

lemma NewFrameReader_empty: "pending buf = [] \<Longrightarrow> NewFrameReader buf = Inl (rerr buf, buf)"
  by (simp add: NewFrameReader_def preambule_def ReadByte_def)

lemma NewFrameWriter_ok:
  "needMaskingKey f \<longrightarrow> 4 \<le> length (entropy f) \<Longrightarrow> \<exists>h f'. NewFrameWriter f t = (Inr h, f')"
  by (auto simp: NewFrameWriter_def generateMaskingKey_def Let_def)

lemma hd_writeHeader:
  "Fin h \<Longrightarrow> Rsv h = (False, False, False) \<Longrightarrow> hd (writeHeader h n) = 0x80 OR OpCode h"
  by (simp add: writeHeader_def Let_def AppendUint16_def AppendUint64_def)

lemma opcode_nibble: "((0x80 :: byte) OR t) AND 0x0f = t AND 0x0f"
  unfolding byte_consts by (rule high_bit_masked) simp

section \<open>Reading a run of frames\<close>

lemma midFrame_D:
  assumes "midFrame c P k tail"
  shows "\<exists>fr. frameReader c = Some (TcpFrame fr) \<and> k \<le> length P
    \<and> limitN fr = int (length P) - int k
    \<and> (\<forall>key. MaskingKey (header fr) = Some key \<longrightarrow> length key = 4)
    \<and> (MaskingKey (header fr) \<noteq> None \<longrightarrow> pos fr = k)
    \<and> pending (frameReaderFactory c) =
       drop k (case MaskingKey (header fr) of None \<Rightarrow> P | Some key \<Rightarrow> xorKey key 0 P) @ tail"
proof -
  from assms obtain fr where fr: "frameReader c = Some (TcpFrame fr)"
    by (auto simp: midFrame_def split: option.splits frameReader.splits)
  with assms show ?thesis
    by (cases "MaskingKey (header fr)") (simp_all add: midFrame_def)
qed

lemma midFrame_I:
  assumes "frameReader c = Some (TcpFrame fr)" "k \<le> length P"
    "limitN fr = int (length P) - int k"
    "\<And>key. MaskingKey (header fr) = Some key \<Longrightarrow> length key = 4"
    "MaskingKey (header fr) \<noteq> None \<longrightarrow> pos fr = k"
    "pending (frameReaderFactory c) =
       drop k (case MaskingKey (header fr) of None \<Rightarrow> P | Some key \<Rightarrow> xorKey key 0 P) @ tail"
  shows "midFrame c P k tail"
  using assms unfolding midFrame_def
  by (auto split: option.splits frameReader.splits)

text \<open>Inside a frame with payload left, a \<open>Read\<close> returns some of it.\<close>

lemma Conn_Read_mid:
  assumes mf: "midFrame c P k tail" and k: "k < length P" and m: "0 < m"
  shows "\<exists>n c'. 0 < n \<and> k + n \<le> length P
           \<and> Conn_Read c m = ((take n (drop k P), None), c')
           \<and> midFrame c' P (k + n) tail \<and> frameHandler c' = frameHandler c"
proof -
  from mf obtain fr where
    fr: "frameReader c = Some (TcpFrame fr)" and lim: "limitN fr = int (length P) - int k"
    and key: "\<And>key. MaskingKey (header fr) = Some key \<Longrightarrow> length key = 4"
    and ps: "MaskingKey (header fr) \<noteq> None \<longrightarrow> pos fr = k"
    and pd: "pending (frameReaderFactory c) =
       drop k (case MaskingKey (header fr) of None \<Rightarrow> P | Some key \<Rightarrow> xorKey key 0 P) @ tail"
    using midFrame_D [OF mf] by blast
  define W where "W = (case MaskingKey (header fr) of None \<Rightarrow> P | Some key \<Rightarrow> xorKey key 0 P)"
  have lW: "length W = length P" by (simp add: W_def split: option.splits)
  have l: "0 < limitN fr" using lim k by simp
  have ne: "pending (frameReaderFactory c) \<noteq> []" using pd k lW by (simp add: W_def)
  from tcpFrameReader_Read_data [OF l ne m key] obtain n fr' buf' where
    r: "tcpFrameReader_Read fr m (frameReaderFactory c) =
           (((case MaskingKey (header fr) of
                None \<Rightarrow> take n (pending (frameReaderFactory c))
              | Some key \<Rightarrow> xorKey key (pos fr) (take n (pending (frameReaderFactory c)))), None),
            fr', buf')"
    and n: "0 < n" "int n \<le> limitN fr"
    and f: "header fr' = header fr" "limitN fr' = limitN fr - int n"
      "MaskingKey (header fr) \<noteq> None \<longrightarrow> pos fr' = pos fr + n"
    and b: "pending buf' = drop n (pending (frameReaderFactory c))"
    by blast
  have kn: "k + n \<le> length P" using n lim by simp
  have tk: "take n (pending (frameReaderFactory c)) = take n (drop k W)"
    using pd kn lW by (simp add: W_def)
  have bs: "(case MaskingKey (header fr) of
                None \<Rightarrow> take n (pending (frameReaderFactory c))
              | Some key \<Rightarrow> xorKey key (pos fr) (take n (pending (frameReaderFactory c))))
            = take n (drop k P)"
    unfolding tk using ps by (cases "MaskingKey (header fr)") (simp_all add: W_def unmask_piece)
  define c' where "c' = c\<lparr>frameReaderFactory := buf', frameReader := Some (TcpFrame fr')\<rparr>"
  have cr: "Conn_Read c m = ((take n (drop k P), None), c')"
    using fr r bs by (subst Conn_Read.simps) (simp add: c'_def)
  have "pending buf' = drop (k + n) W @ tail"
    using b pd kn lW by (simp add: W_def add.commute)
  then have "midFrame c' P (k + n) tail"
    using kn f lim ps key by (intro midFrame_I [of c' fr']) (auto simp: c'_def W_def)
  with n kn cr show ?thesis by (auto simp: c'_def)
qed

text \<open>At the end of a frame, a \<open>Read\<close> drops the frame and goes on with the next one.\<close>

lemma Conn_Read_end:
  assumes mf: "midFrame c P (length P) tail"
  shows "\<exists>c1. Conn_Read c m = Conn_Read c1 m \<and> frameReader c1 = None
           \<and> pending (frameReaderFactory c1) = tail \<and> frameHandler c1 = frameHandler c"
proof -
  from mf obtain fr where
    fr: "frameReader c = Some (TcpFrame fr)" and lim: "limitN fr = int (length P) - int (length P)"
    and pd: "pending (frameReaderFactory c) =
       drop (length P) (case MaskingKey (header fr) of None \<Rightarrow> P | Some key \<Rightarrow> xorKey key 0 P) @ tail"
    using midFrame_D [OF mf] by blast
  have "Conn_Read c m =
          Conn_Read (c\<lparr>frameReaderFactory := frameReaderFactory c, frameReader := None\<rparr>) m"
    using fr lim by (subst Conn_Read.simps) (simp add: tcpFrameReader_Read_done)
  moreover have "pending (frameReaderFactory c) = tail"
    using pd by (simp split: option.splits)
  ultimately show ?thesis
    by (intro exI [of _ "c\<lparr>frameReaderFactory := frameReaderFactory c, frameReader := None\<rparr>"]) simp
qed

text \<open>Between frames, a \<open>Read\<close> decodes the header of the next frame and enters it.\<close>

lemma Conn_Read_enter:
  assumes none: "frameReader c = None" and h: "frameHandler c = TcpFrameHandler th"
    and good: "goodFrame (h, P)"
    and pd: "pending (frameReaderFactory c) = wireFrame h P @ tail"
  shows "\<exists>c1 th'. Conn_Read c m = Conn_Read c1 m \<and> midFrame c1 P 0 tail
           \<and> frameHandler c1 = TcpFrameHandler th'"
proof -
  from good have g: "Fin h" "Rsv h = (False, False, False)" "OpCode h AND 0x0f \<noteq> CloseFrame"
    "length P < 2 ^ 63" "\<And>key. MaskingKey h = Some key \<Longrightarrow> length key = 4"
    by (auto simp: goodFrame_def)
  define k where "k = (case MaskingKey h of None \<Rightarrow> [] | Some k \<Rightarrow> k)"
  define W where "W = (case MaskingKey h of None \<Rightarrow> P | Some k \<Rightarrow> xorKey k 0 P)"
  have kk: "case MaskingKey h of None \<Rightarrow> k = [] | Some k' \<Rightarrow> k = k' \<and> length k' = 4"
    using g(5) by (auto simp: k_def split: option.splits)
  have p: "pending (frameReaderFactory c) = preambule @ writeHeader h (length P) @ k @ (W @ tail)"
    using pd by (simp add: wireFrame_def k_def W_def split: option.splits)
  from NewFrameReader_writeHeader [OF kk p] obtain frame where
    d: "NewFrameReader (frameReaderFactory c) = Inr (frame, (frameReaderFactory c)\<lparr>pending := W @ tail\<rparr>)"
    and f: "limitN frame = sint (of_nat (length P) :: 64 word)" "pos frame = 0"
      "MaskingKey (header frame) = MaskingKey h"
      "OpCode (header frame) = hd (writeHeader h (length P)) AND 0x0f"
    by blast
  have "OpCode (header frame) = OpCode h AND 0x0f"
    using f(4) g(1,2) by (simp add: hd_writeHeader opcode_nibble)
  then have nc: "OpCode (header frame) \<noteq> CloseFrame" using g(3) by simp
  from HandleFrame_not_close [OF nc, of th] obtain fr' h' where
    hf: "tcpFrameHandler_HandleFrame th (TcpFrame frame) = ((Some (TcpFrame fr'), None), h')"
    and gg: "MaskingKey (header fr') = MaskingKey (header frame)" "limitN fr' = limitN frame"
      "pos fr' = pos frame"
    by blast
  define c1 where "c1 = c\<lparr>frameReaderFactory := (frameReaderFactory c)\<lparr>pending := W @ tail\<rparr>,
      frameHandler := TcpFrameHandler h', frameReader := Some (TcpFrame fr')\<rparr>"
  have step: "Conn_Read c m = Conn_Read c1 m"
    using none h d hf by (subst Conn_Read.simps) (simp add: c1_def)
  have "midFrame c1 P 0 tail"
    using gg f g(4,5) by (intro midFrame_I [of c1 fr']) (auto simp: c1_def W_def sint_of_nat64)
  with step show ?thesis by (auto simp: c1_def)
qed

lemma wires_Cons: "wires ((h, P) # fps) = wireFrame h P @ wires fps"
  by (simp add: wires_def)

lemma payloads_Cons: "payloads ((h, P) # fps) = P @ payloads fps"
  by (simp add: payloads_def)

text \<open>
  Between frames, with payload bytes still to come in the frames ahead: a \<open>Read\<close>
  passes the empty frames and returns bytes of the first frame that has some.
\<close>

lemma Conn_Read_boundary:
  assumes "frameReader c = None" and "frameHandler c = TcpFrameHandler th"
    and "list_all goodFrame fps"
    and "pending (frameReaderFactory c) = wires fps @ rest"
    and "payloads fps \<noteq> []" and m: "0 < m"
  shows "\<exists>n c' P k fps' th'. 0 < n
           \<and> Conn_Read c m = ((take n (payloads fps), None), c')
           \<and> midFrame c' P k (wires fps' @ rest) \<and> list_all goodFrame fps'
           \<and> frameHandler c' = TcpFrameHandler th'
           \<and> drop k P @ payloads fps' = drop n (payloads fps)"
  using assms(1-5)
proof (induction fps arbitrary: c th)
  case Nil
  then show ?case by (simp add: payloads_def)
next
  case (Cons hP fps)
  obtain h P where hP: "hP = (h, P)" by (cases hP)
  have good: "goodFrame (h, P)" "list_all goodFrame fps" using Cons.prems(3) hP by simp_all
  have pd: "pending (frameReaderFactory c) = wireFrame h P @ (wires fps @ rest)"
    using Cons.prems(4) hP by (simp add: wires_Cons)
  from Conn_Read_enter [OF Cons.prems(1,2) good(1) pd, of m] obtain c1 th1 where
    c1: "Conn_Read c m = Conn_Read c1 m" "midFrame c1 P 0 (wires fps @ rest)"
      "frameHandler c1 = TcpFrameHandler th1"
    by blast
  show ?case
  proof (cases "P = []")
    case True
    with c1(2) have "midFrame c1 P (length P) (wires fps @ rest)" by simp
    from Conn_Read_end [OF this, of m] obtain c2 where
      c2: "Conn_Read c1 m = Conn_Read c2 m" "frameReader c2 = None"
        "pending (frameReaderFactory c2) = wires fps @ rest" "frameHandler c2 = frameHandler c1"
      by blast
    have pl: "payloads (hP # fps) = payloads fps" using True hP by (simp add: payloads_Cons)
    have "\<exists>n c' P k fps' th'. 0 < n
           \<and> Conn_Read c2 m = ((take n (payloads fps), None), c')
           \<and> midFrame c' P k (wires fps' @ rest) \<and> list_all goodFrame fps'
           \<and> frameHandler c' = TcpFrameHandler th'
           \<and> drop k P @ payloads fps' = drop n (payloads fps)"
      using c2 c1(3) good(2) Cons.prems(5) pl by (intro Cons.IH [of c2 th1]) simp_all
    then show ?thesis using c1(1) c2(1) pl by simp
  next
    case False
    then have "0 < length P" by simp
    from Conn_Read_mid [OF c1(2) this m] obtain n c' where
      n: "0 < n" "n \<le> length P" and r: "Conn_Read c1 m = ((take n P, None), c')"
      and mf: "midFrame c' P n (wires fps @ rest)" and hh: "frameHandler c' = frameHandler c1"
      by auto
    have "take n (payloads (hP # fps)) = take n P" using n hP by (simp add: payloads_Cons)
    moreover have "drop n P @ payloads fps = drop n (payloads (hP # fps))"
      using n hP by (simp add: payloads_Cons)
    ultimately show ?thesis using n r mf hh c1 good(2) by (metis)
  qed
qed

text \<open>The same inside a frame.\<close>

lemma Conn_Read_frames:
  assumes mf: "midFrame c P k (wires fps @ rest)" and h: "frameHandler c = TcpFrameHandler th"
    and good: "list_all goodFrame fps"
    and ne: "drop k P @ payloads fps \<noteq> []" and m: "0 < m"
  shows "\<exists>n c' P' k' fps' th'. 0 < n
           \<and> Conn_Read c m = ((take n (drop k P @ payloads fps), None), c')
           \<and> midFrame c' P' k' (wires fps' @ rest) \<and> list_all goodFrame fps'
           \<and> frameHandler c' = TcpFrameHandler th'
           \<and> drop k' P' @ payloads fps' = drop n (drop k P @ payloads fps)"
proof (cases "k < length P")
  case True
  from Conn_Read_mid [OF mf True m] obtain n c' where
    n: "0 < n" "k + n \<le> length P" and r: "Conn_Read c m = ((take n (drop k P), None), c')"
    and mf': "midFrame c' P (k + n) (wires fps @ rest)" and hh: "frameHandler c' = frameHandler c"
    by auto
  have "take n (drop k P @ payloads fps) = take n (drop k P)" using n by simp
  moreover have "drop (k + n) P @ payloads fps = drop n (drop k P @ payloads fps)"
    using n by (simp add: add.commute)
  ultimately show ?thesis using n r mf' hh h good by metis
next
  case False
  from midFrame_D [OF mf] have "k \<le> length P" by blast
  with False have k: "k = length P" by simp
  from Conn_Read_end [OF mf [unfolded k], of m] obtain c1 where
    c1: "Conn_Read c m = Conn_Read c1 m" "frameReader c1 = None"
      "pending (frameReaderFactory c1) = wires fps @ rest" "frameHandler c1 = frameHandler c"
    by blast
  have "payloads fps \<noteq> []" using ne k by simp
  from Conn_Read_boundary [OF c1(2) _ good c1(3) this m, of th] c1(4) h
  show ?thesis using c1(1) k by simp
qed

text \<open>The reading loop collects what the frames ahead hold.\<close>

lemma readBack_frames:
  assumes "midFrame c P k (wires fps @ rest)" and "frameHandler c = TcpFrameHandler th"
    and "list_all goodFrame fps"
    and "\<forall>m \<in> set ms. 0 < m"
    and "length (drop k P @ payloads fps) \<le> length ms"
  shows "fst (readBack (length (drop k P @ payloads fps)) ms c) = (drop k P @ payloads fps, None)"
  using assms
proof (induction ms arbitrary: c P k fps th)
  case Nil
  then show ?case by simp
next
  case (Cons m ms)
  define D where "D = drop k P @ payloads fps"
  show ?case
  proof (cases "D = []")
    case True
    then show ?thesis by (simp add: D_def)
  next
    case False
    have m: "0 < m" using Cons.prems(4) by simp
    from Conn_Read_frames [OF Cons.prems(1,2,3) False [unfolded D_def] m]
    obtain n c' P' k' fps' th' where
      n: "0 < n" and r: "Conn_Read c m = ((take n D, None), c')"
      and mf: "midFrame c' P' k' (wires fps' @ rest)" and good: "list_all goodFrame fps'"
      and hh: "frameHandler c' = TcpFrameHandler th'"
      and d: "drop k' P' @ payloads fps' = drop n D"
      unfolding D_def by blast
    have len: "length D - length (take n D) = length (drop k' P' @ payloads fps')"
      unfolding d by simp
    have "length (drop k' P' @ payloads fps') \<le> length ms"
      unfolding d using Cons.prems(5) n False by (simp add: D_def [symmetric])
    with Cons.prems(4) have
      ih: "fst (readBack (length (drop k' P' @ payloads fps')) ms c') = (drop k' P' @ payloads fps', None)"
      by (intro Cons.IH [OF mf hh good]) simp_all
    have "fst (readBack (length D) (m # ms) c) = (take n D @ drop n D, None)"
      using False r len ih d by (simp add: split_beta)
    then show ?thesis unfolding append_take_drop_id D_def .
  qed
qed

lemma readBack_boundary:
  assumes none: "frameReader c = None" and h: "frameHandler c = TcpFrameHandler th"
    and good: "list_all goodFrame fps"
    and pd: "pending (frameReaderFactory c) = wires fps @ rest"
    and pos: "\<forall>m \<in> set ms. 0 < m"
    and len: "length (payloads fps) \<le> length ms"
  shows "fst (readBack (length (payloads fps)) ms c) = (payloads fps, None)"
proof (cases ms)
  case Nil
  with len show ?thesis by simp
next
  case (Cons m ms')
  show ?thesis
  proof (cases "payloads fps = []")
    case True
    then show ?thesis using Cons by simp
  next
    case False
    have m: "0 < m" using pos Cons by simp
    from Conn_Read_boundary [OF none h good pd False m]
    obtain n c' P k fps' th' where
      n: "0 < n" and r: "Conn_Read c m = ((take n (payloads fps), None), c')"
      and mf: "midFrame c' P k (wires fps' @ rest)" and good': "list_all goodFrame fps'"
      and hh: "frameHandler c' = TcpFrameHandler th'"
      and d: "drop k P @ payloads fps' = drop n (payloads fps)"
      by blast
    have l: "length (payloads fps) - length (take n (payloads fps)) = length (drop k P @ payloads fps')"
      unfolding d by simp
    have "length (drop k P @ payloads fps') \<le> length ms'"
      unfolding d using len n False Cons by simp
    with pos Cons have
      "fst (readBack (length (drop k P @ payloads fps')) ms' c') = (drop k P @ payloads fps', None)"
      by (intro readBack_frames [OF mf hh good']) simp_all
    then have "fst (readBack (length (payloads fps)) (m # ms') c)
        = (take n (payloads fps) @ drop n (payloads fps), None)"
      using False r l d by (simp add: split_beta)
    then show ?thesis using Cons by simp
  qed
qed


text \<open>What a run of successful writes puts on the stream: one frame per message.\<close>

lemma writeAll_ok:
  assumes "needMaskingKey (frameWriterFactory wc) \<longrightarrow> 4 * length Ps \<le> length (entropy (frameWriterFactory wc))"
    and "berr (Writer (frameWriterFactory wc)) = None"
    and "werr (Writer (frameWriterFactory wc)) = None"
    and "wbuf (Writer (frameWriterFactory wc)) = []"
  shows "\<exists>hs. length hs = length Ps \<and> fst (writeAll wc Ps) = None
           \<and> sent (Writer (frameWriterFactory (snd (writeAll wc Ps))))
               = sent (Writer (frameWriterFactory wc)) @ wires (zip hs Ps)
           \<and> (\<forall>h \<in> set hs. Fin h \<and> Rsv h = (False, False, False) \<and> OpCode h = PayloadType wc
                 \<and> (\<forall>key. MaskingKey h = Some key \<longrightarrow> length key = 4))"
  using assms
proof (induction Ps arbitrary: wc)
  case Nil
  then show ?case by (simp add: wires_def)
next
  case (Cons P Ps)
  have "needMaskingKey (frameWriterFactory wc) \<longrightarrow> 4 \<le> length (entropy (frameWriterFactory wc))"
    using Cons.prems(1) by auto
  from NewFrameWriter_ok [OF this] obtain h f' where
    nw: "NewFrameWriter (frameWriterFactory wc) (PayloadType wc) = (Inr h, f')"
    by blast
  note w = NewFrameWriter_Inr [OF nw]
  have key: "\<forall>key. MaskingKey h = Some key \<longrightarrow> length key = 4"
    using NewFrameWriter_key [OF nw] by blast
  define wc1 where "wc1 = wc\<lparr>frameWriterFactory := f'\<lparr>Writer := (Writer f')\<lparr>wbuf := [],
         sent := sent (Writer f') @ wbuf (Writer f') @ wireFrame h P\<rparr>\<rparr>\<rparr>"
  have cw: "Conn_Write wc P = ((length (wireFrame h P), None), wc1)"
    using Conn_Write_ok [OF nw Cons.prems(2,3), of P] by (simp add: wc1_def)
  have step: "writeAll wc (P # Ps) = writeAll wc1 Ps" using cw by simp
  have s1: "sent (Writer (frameWriterFactory wc1)) = sent (Writer (frameWriterFactory wc)) @ wireFrame h P"
    using w Cons.prems(4) by (simp add: wc1_def)
  have p1: "PayloadType wc1 = PayloadType wc" by (simp add: wc1_def)
  have e1: "needMaskingKey (frameWriterFactory wc1) \<longrightarrow>
      4 * length Ps \<le> length (entropy (frameWriterFactory wc1))"
    using w Cons.prems(1) by (auto simp: wc1_def split: if_splits)
  have "\<exists>hs. length hs = length Ps \<and> fst (writeAll wc1 Ps) = None
           \<and> sent (Writer (frameWriterFactory (snd (writeAll wc1 Ps))))
               = sent (Writer (frameWriterFactory wc1)) @ wires (zip hs Ps)
           \<and> (\<forall>h \<in> set hs. Fin h \<and> Rsv h = (False, False, False) \<and> OpCode h = PayloadType wc1
                 \<and> (\<forall>key. MaskingKey h = Some key \<longrightarrow> length key = 4))"
    using w Cons.prems(2,3) by (intro Cons.IH [OF e1]) (simp_all add: wc1_def)
  then obtain hs where
    hs: "length hs = length Ps" "fst (writeAll wc1 Ps) = None"
      "sent (Writer (frameWriterFactory (snd (writeAll wc1 Ps))))
               = sent (Writer (frameWriterFactory wc1)) @ wires (zip hs Ps)"
      "\<forall>h \<in> set hs. Fin h \<and> Rsv h = (False, False, False) \<and> OpCode h = PayloadType wc1
                 \<and> (\<forall>key. MaskingKey h = Some key \<longrightarrow> length key = 4)"
    by blast
  have "length (h # hs) = length (P # Ps)" using hs(1) by simp
  moreover have "fst (writeAll wc (P # Ps)) = None" using step hs(2) by simp
  moreover have "sent (Writer (frameWriterFactory (snd (writeAll wc (P # Ps)))))
               = sent (Writer (frameWriterFactory wc)) @ wires (zip (h # hs) (P # Ps))"
    using step hs(3) s1 by (simp add: wires_Cons)
  moreover have "\<forall>h' \<in> set (h # hs). Fin h' \<and> Rsv h' = (False, False, False) \<and> OpCode h' = PayloadType wc
                 \<and> (\<forall>key. MaskingKey h' = Some key \<longrightarrow> length key = 4)"
    using hs(4) p1 w key by simp
  ultimately show ?case by blast
qed

lemma payloads_zip: "length hs = length Ps \<Longrightarrow> payloads (zip hs Ps) = concat Ps"
  by (simp add: payloads_def)

text \<open>
  A header that does not decode takes its bytes from the stream: after a bad preamble
  byte, \<open>Read\<close> and \<open>ReadFrame\<close> leave the stream right after that byte.
\<close>

lemma failed_decode_consumes:
  "NewFrameReader (stream_of [0x5A, 0x00, 0x01]) = Inl (ErrBadPreambule, stream_of [0x01])
   \<and> fst (Conn_Read (peer [0x5A, 0x00, 0x01] []) 16) = ([], Some ErrBadPreambule)
   \<and> pending (frameReaderFactory (snd (Conn_Read (peer [0x5A, 0x00, 0x01] []) 16))) = [0x01]
   \<and> fst (Conn_ReadFrame (peer [0x5A, 0x00, 0x01] [])) = ([], Some ErrBadPreambule)
   \<and> pending (frameReaderFactory (snd (Conn_ReadFrame (peer [0x5A, 0x00, 0x01] [])))) = [0x01]"
  by code_simp

section \<open>Where \<open>io.EOF\<close> comes from on the read path\<close>


lemma ReadByte_Inl: "ReadByte r = Inl e \<Longrightarrow> e = rerr r"
  by (auto simp: ReadByte_def split: list.splits)

lemma checkPreambule_Inl:
  "checkPreambule ps r = Inl (e, r') \<Longrightarrow> e = rerr r \<or> e = ErrBadPreambule"
proof (induction ps arbitrary: r)
  case Nil
  then show ?case by simp
next
  case (Cons p ps)
  show ?case
  proof (cases "ReadByte r")
    case (Inl e')
    with Cons.prems show ?thesis by (auto dest: ReadByte_Inl)
  next
    case (Inr br)
    obtain b r1 where br: "br = (b, r1)" by (cases br)
    with Inr ReadByte_Inr [of r b r1] have "rerr r1 = rerr r" by simp
    with Cons Inr br show ?thesis by (auto split: if_splits)
  qed
qed

lemma readLengthFields_Inl:
  "readLengthFields n hdr len r = Inl (e, r') \<Longrightarrow> e = rerr r"
proof (induction n arbitrary: hdr len r)
  case 0
  then show ?case by simp
next
  case (Suc n)
  show ?case
  proof (cases "ReadByte r")
    case (Inl e')
    with Suc.prems show ?thesis by (auto dest: ReadByte_Inl)
  next
    case (Inr br)
    obtain b r1 where br: "br = (b, r1)" by (cases br)
    with Inr ReadByte_Inr [of r b r1] have "rerr r1 = rerr r" by simp
    with Suc Inr br show ?thesis by auto
  qed
qed

lemma readMaskingKey_Inl:
  "readMaskingKey n hdr key r = Inl (e, r') \<Longrightarrow> e = rerr r"
proof (induction n arbitrary: hdr key r)
  case 0
  then show ?case by simp
next
  case (Suc n)
  show ?case
  proof (cases "ReadByte r")
    case (Inl e')
    with Suc.prems show ?thesis by (auto dest: ReadByte_Inl)
  next
    case (Inr br)
    obtain b r1 where br: "br = (b, r1)" by (cases br)
    with Inr ReadByte_Inr [of r b r1] have "rerr r1 = rerr r" by simp
    with Suc Inr br show ?thesis by auto
  qed
qed

text \<open>A header that does not decode: the stream's own error, or a bad preamble.\<close>

lemma NewFrameReader_Inl:
  assumes "NewFrameReader buf = Inl (e, buf')"
  shows "e = rerr buf \<or> e = ErrBadPreambule"
proof (cases "checkPreambule preambule buf")
  case (Inl e')
  with assms have "e' = (e, buf')" by (simp add: NewFrameReader_def)
  with Inl checkPreambule_Inl show ?thesis by blast
next
  case (Inr r0)
  note r0 = checkPreambule_Inr [OF Inr]
  show ?thesis
  proof (cases "ReadByte r0")
    case (Inl e')
    with assms Inr r0 show ?thesis by (auto simp: NewFrameReader_def dest: ReadByte_Inl)
  next
    case a: (Inr br1)
    obtain b1 r1 where br1: "br1 = (b1, r1)" by (cases br1)
    note r1 = ReadByte_Inr [of r0 b1 r1]
    show ?thesis
    proof (cases "ReadByte r1")
      case (Inl e')
      with assms Inr a br1 r0 r1 show ?thesis
        by (auto simp: NewFrameReader_def dest: ReadByte_Inl)
    next
      case b: (Inr br2)
      obtain b2 r2 where br2: "br2 = (b2, r2)" by (cases br2)
      note r2 = ReadByte_Inr [of r1 b2 r2]
      have rr: "rerr r2 = rerr buf" using r0 r1 r2 a b br1 br2 by simp
      show ?thesis
      proof (cases "readLengthFields (if b2 AND 0x7f \<le> 125 then 0 else if b2 AND 0x7f = 126 then 2 else if b2 AND 0x7f = 127 then 8 else 0) [b1, b2]
          (if b2 AND 0x7f \<le> 125 then ucast (b2 AND 0x7f) else 0) r2")
        case (Inl e')
        with assms Inr a b br1 br2 have "e' = (e, buf')" by (simp add: NewFrameReader_def Let_def)
        with Inl readLengthFields_Inl rr show ?thesis by metis
      next
        case c: (Inr t)
        obtain hdr3 len r3 where t: "t = (hdr3, len, r3)" by (cases t)
        from readLengthFields_Inr [of _ _ _ r2 hdr3 len r3] c t have r3: "rerr r3 = rerr r2" by auto
        show ?thesis
        proof (cases "b2 AND 0x80 \<noteq> 0")
          case True
          show ?thesis
          proof (cases "readMaskingKey 4 hdr3 [] r3")
            case (Inl e')
            with assms Inr a b c br1 br2 t True have "e' = (e, buf')" by (simp add: NewFrameReader_def Let_def)
            with readMaskingKey_Inl [of 4 hdr3 "[]" r3 e buf'] Inl r3 rr show ?thesis by simp
          next
            case d: (Inr u)
            with assms Inr a b c br1 br2 t True show ?thesis
              by (simp add: NewFrameReader_def Let_def split: prod.splits)
          qed
        next
          case False
          with assms Inr a b c br1 br2 t show ?thesis
            by (simp add: NewFrameReader_def Let_def split: prod.splits)
        qed
      qed
    qed
  qed
qed

lemma bufio_Read_rerr: "bufio_Read m r = (res, r') \<Longrightarrow> rerr r' = rerr r"
  by (auto simp: bufio_Read_def Let_def split: if_splits)

lemma LimitedReader_Read_rerr: "LimitedReader_Read N m r = (res, N', r') \<Longrightarrow> rerr r' = rerr r"
  by (auto simp: LimitedReader_Read_def Let_def split: if_splits prod.splits dest: bufio_Read_rerr)

lemma tcpFrameReader_Read_keeps:
  assumes "tcpFrameReader_Read fr m buf = (res, fr', buf')"
  shows "rerr buf' = rerr buf \<and> header fr' = header fr"
proof -
  obtain bs err N' b' where l: "LimitedReader_Read (limitN fr) m buf = ((bs, err), N', b')"
    by (metis prod.exhaust)
  from LimitedReader_Read_rerr [OF l] have "rerr b' = rerr buf" .
  with assms l show ?thesis
    by (auto simp: tcpFrameReader_Read_def split: option.splits if_splits)
qed


lemma tcpFrameReader_Read_suffix:
  assumes "tcpFrameReader_Read fr m buf = (res, fr', buf')"
  shows "\<exists>pre. pending buf = pre @ pending buf'"
proof -
  obtain bs err N' b' where l: "LimitedReader_Read (limitN fr) m buf = ((bs, err), N', b')"
    by (metis prod.exhaust)
  from LimitedReader_Read_pending [OF l] have "pending buf = bs @ pending b'" by simp
  moreover from assms l have "buf' = b'"
    by (auto simp: tcpFrameReader_Read_def split: option.splits if_splits)
  ultimately show ?thesis by blast
qed

lemma frame_Read_suffix:
  assumes "frame_Read fr m buf = (res, fr', buf')"
  shows "rerr buf' = rerr buf \<and> (\<exists>pre. pending buf = pre @ pending buf')"
proof (cases fr)
  case (TcpFrame t)
  with assms obtain t' where "tcpFrameReader_Read t m buf = (res, t', buf')"
    by (auto split: prod.splits)
  with tcpFrameReader_Read_keeps tcpFrameReader_Read_suffix show ?thesis by blast
next
  case (OtherFrame x)
  with assms show ?thesis by (auto split: prod.splits)
qed

text \<open>
  With the package's handler and a stream whose own error is not \<open>io.EOF\<close>, a \<open>Read\<close>
  that fails with \<open>io.EOF\<close> has decoded a close frame, and stopped right after its
  header.
\<close>

lemma Conn_Read_EOF_is_close:
  assumes "frameHandler conn = TcpFrameHandler th"
    and "rerr (frameReaderFactory conn) \<noteq> EOF"
    and "Conn_Read conn m = ((bs, Some EOF), conn')"
  shows "\<exists>buf frame. NewFrameReader buf = Inr (frame, frameReaderFactory conn')
           \<and> OpCode (header frame) = CloseFrame
           \<and> (\<exists>pre. pending (frameReaderFactory conn) = pre @ pending buf)"
  using assms
proof (induction "2 * length (pending (frameReaderFactory conn)) + (if frameReader conn = None then 0 else 1)"
    arbitrary: conn th rule: less_induct)
  case less
  show ?case
  proof (cases "frameReader conn")
    case None
    show ?thesis
    proof (cases "NewFrameReader (frameReaderFactory conn)")
      case (Inl failed)
      obtain e fb where f: "failed = (e, fb)" by (cases failed)
      with Inl None less.prems(3) have "e = EOF" by (subst (asm) Conn_Read.simps) simp
      with NewFrameReader_Inl [OF Inl [unfolded f]] less.prems(2) show ?thesis by simp
    next
      case (Inr p)
      obtain frame buf' where p: "p = (frame, buf')" by (cases p)
      note d = Inr [unfolded p]
      note di = NewFrameReader_Inr [OF d]
      show ?thesis
      proof (cases "OpCode (header frame) = CloseFrame")
        case True
        then have "tcpFrameHandler_HandleFrame th (TcpFrame frame) = ((None, Some EOF), th)"
          by (intro HandleFrame_close) (simp add: tcpFrameReader_PayloadType_def)
        with None d less.prems(1,3) have "frameReaderFactory conn' = buf'"
          by (subst (asm) Conn_Read.simps) auto
        with d True show ?thesis by (intro exI [of _ "frameReaderFactory conn"] exI [of _ frame]) simp
      next
        case False
        from HandleFrame_not_close [OF False, of th] obtain fr' h' where
          hf: "tcpFrameHandler_HandleFrame th (TcpFrame frame) = ((Some (TcpFrame fr'), None), h')"
          by blast
        define c1 where "c1 = conn\<lparr>frameReaderFactory := buf', frameHandler := TcpFrameHandler h',
            frameReader := Some (TcpFrame fr')\<rparr>"
        have step: "Conn_Read conn m = Conn_Read c1 m"
          using None d hf less.prems(1) by (subst Conn_Read.simps) (simp add: c1_def)
        have m: "2 * length (pending (frameReaderFactory c1)) + (if frameReader c1 = None then 0 else 1)
            < 2 * length (pending (frameReaderFactory conn)) + (if frameReader conn = None then 0 else 1)"
          using NewFrameReader_shrinks [OF d] None by (simp add: c1_def)
        have "\<exists>buf frame. NewFrameReader buf = Inr (frame, frameReaderFactory conn')
           \<and> OpCode (header frame) = CloseFrame
           \<and> (\<exists>pre. pending (frameReaderFactory c1) = pre @ pending buf)"
        proof (rule less.hyps [OF m, of h'])
          show "frameHandler c1 = TcpFrameHandler h'" by (simp add: c1_def)
          from di have "rerr buf' = rerr (frameReaderFactory conn)" by blast
          with less.prems(2) show "rerr (frameReaderFactory c1) \<noteq> EOF" by (simp add: c1_def)
          from less.prems(3) step show "Conn_Read c1 m = ((bs, Some EOF), conn')" by simp
        qed
        then obtain buf fr2 pre where
          r: "NewFrameReader buf = Inr (fr2, frameReaderFactory conn')" "OpCode (header fr2) = CloseFrame"
            "pending buf' = pre @ pending buf"
          by (auto simp: c1_def)
        from di obtain hdr where "pending (frameReaderFactory conn) = preambule @ hdr @ pending buf'" by blast
        with r have "pending (frameReaderFactory conn) = (preambule @ hdr @ pre) @ pending buf" by simp
        with r show ?thesis by blast
      qed
    qed
  next
    case (Some fr)
    obtain rb re fr' buf' where fr: "frame_Read fr m (frameReaderFactory conn) = ((rb, re), fr', buf')"
      by (metis prod.exhaust)
    note sfx = frame_Read_suffix [OF fr]
    show ?thesis
    proof (cases "re = Some EOF")
      case True
      define c1 where "c1 = conn\<lparr>frameReaderFactory := buf', frameReader := None\<rparr>"
      have step: "Conn_Read conn m = Conn_Read c1 m"
        using Some fr True by (subst Conn_Read.simps) (simp add: c1_def)
      have "length (pending buf') \<le> length (pending (frameReaderFactory conn))"
        using frame_Read_pending_le [OF fr] .
      then have m: "2 * length (pending (frameReaderFactory c1)) + (if frameReader c1 = None then 0 else 1)
            < 2 * length (pending (frameReaderFactory conn)) + (if frameReader conn = None then 0 else 1)"
        using Some by (simp add: c1_def)
      have "\<exists>buf frame. NewFrameReader buf = Inr (frame, frameReaderFactory conn')
           \<and> OpCode (header frame) = CloseFrame
           \<and> (\<exists>pre. pending (frameReaderFactory c1) = pre @ pending buf)"
      proof (rule less.hyps [OF m, of th])
        show "frameHandler c1 = TcpFrameHandler th" using less.prems(1) by (simp add: c1_def)
        from sfx less.prems(2) show "rerr (frameReaderFactory c1) \<noteq> EOF" by (simp add: c1_def)
        from less.prems(3) step show "Conn_Read c1 m = ((bs, Some EOF), conn')" by simp
      qed
      then obtain buf fr2 pre where
        r: "NewFrameReader buf = Inr (fr2, frameReaderFactory conn')" "OpCode (header fr2) = CloseFrame"
          "pending buf' = pre @ pending buf"
        by (auto simp: c1_def)
      from sfx obtain pre0 where "pending (frameReaderFactory conn) = pre0 @ pending buf'" by blast
      with r have "pending (frameReaderFactory conn) = (pre0 @ pre) @ pending buf" by simp
      with r show ?thesis by blast
    next
      case False
      with Some fr less.prems(3) show ?thesis by (subst (asm) Conn_Read.simps) simp
    qed
  qed
qed


lemma io_Copy_Discard_keeps:
  "io_Copy_Discard fr buf = (res, fr', buf') \<Longrightarrow>
     res \<noteq> Some EOF \<and> rerr buf' = rerr buf \<and> (\<exists>pre. pending buf = pre @ pending buf')"
proof (induction fr buf rule: io_Copy_Discard.induct)
  case (1 fr buf)
  obtain rb re fr1 buf1 where r: "frame_Read fr 8192 buf = ((rb, re), fr1, buf1)"
    by (metis prod.exhaust)
  note sfx = frame_Read_suffix [OF r]
  show ?case
  proof (cases re)
    case None
    with r "1.prems" have "io_Copy_Discard fr1 buf1 = (res, fr', buf')"
      by (subst (asm) io_Copy_Discard.simps) simp
    from "1.IH" [OF r [symmetric] refl None refl this]
    have "res \<noteq> Some EOF \<and> rerr buf' = rerr buf1 \<and> (\<exists>pre. pending buf1 = pre @ pending buf')"
      by simp
    with sfx show ?thesis by (metis append.assoc)
  next
    case (Some e)
    with r "1.prems" have "res = (if e = EOF then None else Some e)" "buf' = buf1"
      by (subst (asm) io_Copy_Discard.simps, simp)+
    with sfx show ?thesis by auto
  qed
qed

lemma io_ReadAll_not_EOF:
  "io_ReadAll fr buf = ((bs, err), fr', buf') \<Longrightarrow> err \<noteq> Some EOF"
proof (induction fr buf arbitrary: bs err fr' buf' rule: io_ReadAll.induct)
  case (1 fr buf)
  obtain rb re fr1 buf1 where r: "frame_Read fr 512 buf = ((rb, re), fr1, buf1)"
    by (metis prod.exhaust)
  show ?case
  proof (cases re)
    case None
    obtain rest e2 fr2 buf2 where a: "io_ReadAll fr1 buf1 = ((rest, e2), fr2, buf2)"
      by (metis prod.exhaust)
    with r None "1.prems" have "err = e2"
      by (subst (asm) io_ReadAll.simps) simp
    with "1.IH" [OF r [symmetric] refl None refl a] show ?thesis by simp
  next
    case (Some e)
    with r "1.prems" have "err = (if e = EOF then None else Some e)"
      by (subst (asm) io_ReadAll.simps) simp
    then show ?thesis by auto
  qed
qed

lemma ReadFrame_loop_EOF_is_close:
  assumes h: "frameHandler conn = TcpFrameHandler th"
    and ne: "rerr (frameReaderFactory conn) \<noteq> EOF"
    and r: "ReadFrame_loop conn = ((bs, Some EOF), conn')"
  shows "\<exists>frame. NewFrameReader (frameReaderFactory conn) = Inr (frame, frameReaderFactory conn')
           \<and> OpCode (header frame) = CloseFrame"
proof (cases "NewFrameReader (frameReaderFactory conn)")
  case (Inl failed)
  obtain e fb where f: "failed = (e, fb)" by (cases failed)
  with Inl r have "e = EOF" by (subst (asm) ReadFrame_loop.simps) simp
  with NewFrameReader_Inl [OF Inl [unfolded f]] ne show ?thesis by simp
next
  case (Inr p)
  obtain frame buf' where p: "p = (frame, buf')" by (cases p)
  note d = Inr [unfolded p]
  show ?thesis
  proof (cases "OpCode (header frame) = CloseFrame")
    case True
    then have "tcpFrameHandler_HandleFrame th (TcpFrame frame) = ((None, Some EOF), th)"
      by (intro HandleFrame_close) (simp add: tcpFrameReader_PayloadType_def)
    with d h r have "frameReaderFactory conn' = buf'"
      by (subst (asm) ReadFrame_loop.simps) auto
    with d True show ?thesis by simp
  next
    case False
    from HandleFrame_not_close [OF False, of th] obtain fr' h' where
      hf: "tcpFrameHandler_HandleFrame th (TcpFrame frame) = ((Some (TcpFrame fr'), None), h')"
      by blast
    obtain ce cf cb where c: "io_Copy_Discard (TcpFrame fr') buf' = (ce, cf, cb)"
      by (metis prod.exhaust)
    obtain ab ae af abuf where a: "io_ReadAll (TcpFrame fr') buf' = ((ab, ae), af, abuf)"
      by (metis prod.exhaust)
    from io_Copy_Discard_keeps [OF c] have "ce \<noteq> Some EOF" by simp
    moreover from io_ReadAll_not_EOF [OF a] have "ae \<noteq> Some EOF" .
    ultimately have False
      using d h hf r c a
      by (subst (asm) ReadFrame_loop.simps) (auto simp: Let_def split: if_splits option.splits)
    then show ?thesis ..
  qed
qed

lemma Conn_ReadFrame_EOF_is_close:
  assumes h: "frameHandler conn = TcpFrameHandler th"
    and ne: "rerr (frameReaderFactory conn) \<noteq> EOF"
    and r: "Conn_ReadFrame conn = ((bs, Some EOF), conn')"
  shows "\<exists>buf frame. NewFrameReader buf = Inr (frame, frameReaderFactory conn')
           \<and> OpCode (header frame) = CloseFrame
           \<and> (\<exists>pre. pending (frameReaderFactory conn) = pre @ pending buf)"
proof (cases "frameReader conn")
  case None
  with r have "ReadFrame_loop conn = ((bs, Some EOF), conn')" by (simp add: Conn_ReadFrame_def)
  from ReadFrame_loop_EOF_is_close [OF h ne this] show ?thesis by (metis append_Nil)
next
  case (Some fr)
  obtain ce cf cb where c: "io_Copy_Discard fr (frameReaderFactory conn) = (ce, cf, cb)"
    by (metis prod.exhaust)
  note k = io_Copy_Discard_keeps [OF c]
  define c1 where "c1 = conn\<lparr>frameReaderFactory := cb, frameReader := None\<rparr>"
  from k Some c r have l: "ReadFrame_loop c1 = ((bs, Some EOF), conn')"
    by (auto simp: Conn_ReadFrame_def c1_def split: option.splits)
  have "frameHandler c1 = TcpFrameHandler th" using h by (simp add: c1_def)
  moreover have "rerr (frameReaderFactory c1) \<noteq> EOF" using k ne by (simp add: c1_def)
  ultimately obtain frame where
    "NewFrameReader cb = Inr (frame, frameReaderFactory conn')" "OpCode (header frame) = CloseFrame"
    using ReadFrame_loop_EOF_is_close [OF _ _ l] by (auto simp: c1_def)
  with k show ?thesis by blast
qed

section \<open>The claims\<close>

subsection \<open>C1: writing messages and reading them back\<close>

text \<open>
  C1, as amended. A connection whose payload type is not the close opcode (in its low
  four bits) writes the messages \<open>Ps\<close>, one \<open>Write\<close> each, on a stream that accepts every
  byte, with or without masking (with masking, the random source delivers a key per
  message). Another connection with the package's handler and no frame in progress
  receives the bytes these writes sent, followed by any other bytes \<open>rest\<close>, the stream
  handing them over in pieces of any sizes. Then every write succeeds, and reading with
  slices of any positive sizes \<open>ms\<close>, until as many bytes are collected as the messages
  have, collects exactly the bytes of the messages, in order, and no error: no byte of
  a header, of a key or of what follows the frames gets into them.
\<close>

theorem write_then_read_round_trip:
  assumes "needMaskingKey (frameWriterFactory wc) \<longrightarrow>
             4 * length Ps \<le> length (entropy (frameWriterFactory wc))"
    and "berr (Writer (frameWriterFactory wc)) = None"
    and "werr (Writer (frameWriterFactory wc)) = None"
    and "wbuf (Writer (frameWriterFactory wc)) = []"
    and "PayloadType wc AND 0x0f \<noteq> CloseFrame"
    and "\<forall>P \<in> set Ps. length P < 2 ^ 63"
    and "frameReader rc = None"
    and "frameHandler rc = TcpFrameHandler th"
    and "pending (frameReaderFactory rc) = sentSince wc (snd (writeAll wc Ps)) @ rest"
    and "\<forall>m \<in> set ms. 0 < m"
    and "length (concat Ps) \<le> length ms"
  shows "fst (writeAll wc Ps) = None
         \<and> fst (readBack (length (concat Ps)) ms rc) = (concat Ps, None)"
proof -
  from writeAll_ok [OF assms(1-4)] obtain hs where
    hs: "length hs = length Ps" "fst (writeAll wc Ps) = None"
      "sent (Writer (frameWriterFactory (snd (writeAll wc Ps))))
               = sent (Writer (frameWriterFactory wc)) @ wires (zip hs Ps)"
      "\<forall>h \<in> set hs. Fin h \<and> Rsv h = (False, False, False) \<and> OpCode h = PayloadType wc
                 \<and> (\<forall>key. MaskingKey h = Some key \<longrightarrow> length key = 4)"
    by blast
  have pd: "pending (frameReaderFactory rc) = wires (zip hs Ps) @ rest"
    using assms(9) hs(3) by (simp add: sentSince_def)
  have good: "list_all goodFrame (zip hs Ps)"
    unfolding list_all_iff
  proof
    fix hP assume a: "hP \<in> set (zip hs Ps)"
    obtain h P where hP: "hP = (h, P)" by (cases hP)
    from a hP have "h \<in> set hs" "P \<in> set Ps"
      by (auto dest: set_zip_leftD set_zip_rightD)
    note hP = hP this
    with hs(4) assms(5,6) show "goodFrame hP"
      by (auto simp: goodFrame_def split: option.splits)
  qed
  have pl: "payloads (zip hs Ps) = concat Ps" using hs(1) by (rule payloads_zip)
  from readBack_boundary [OF assms(7,8) good pd assms(10)] assms(11)
  have "fst (readBack (length (concat Ps)) ms rc) = (concat Ps, None)"
    unfolding pl by simp
  with hs(2) show ?thesis by simp
qed

theorem write_then_read_round_trip_witness:
  "(needMaskingKey (frameWriterFactory masking_conn)
    \<and> 4 * length [twelve, [], [7, 8, 9]] \<le> length (entropy (frameWriterFactory masking_conn))
    \<and> PayloadType masking_conn AND 0x0f \<noteq> CloseFrame
    \<and> sentSince masking_conn (snd (writeAll masking_conn [twelve, [], [7, 8, 9]]))
        = [0x5A, 0xA5, 0x5A, 0xA5, 0x82, 0x8C, 0xDE, 0xAD, 0xBE, 0xEF,
           0xDF, 0xAF, 0xBD, 0xEB, 0xDB, 0xAB, 0xB9, 0xE7, 0xD7, 0xA7, 0xB5, 0xE3,
           0x5A, 0xA5, 0x5A, 0xA5, 0x82, 0x80, 0x01, 0x02, 0x03, 0x04,
           0x5A, 0xA5, 0x5A, 0xA5, 0x82, 0x83, 0xCA, 0xFE, 0xBA, 0xBE, 0xCD, 0xF6, 0xB3]
    \<and> list_all (\<lambda>m. 0 < m) [5, 1, 1, 2, 3, 4, 5, 6, 7, 8, 9, 10, 1, 1, 1 :: nat]
    \<and> fst (writeAll masking_conn [twelve, [], [7, 8, 9]]) = None
    \<and> fst (readBack (length (concat [twelve, [], [7, 8, 9]]))
             [5, 1, 1, 2, 3, 4, 5, 6, 7, 8, 9, 10, 1, 1, 1]
             (peer (sentSince masking_conn (snd (writeAll masking_conn [twelve, [], [7, 8, 9]]))
                    @ [0x5A, 0xA5, 0x00]) [2, 1, 5]))
        = (concat [twelve, [], [7, 8, 9]], None))
   \<and> (\<not> needMaskingKey (frameWriterFactory writing_conn)
    \<and> PayloadType writing_conn AND 0x0f \<noteq> CloseFrame
    \<and> length (zeros 300) = 300
    \<and> fst (writeAll writing_conn [zeros 300, [1, 2, 3]]) = None
    \<and> fst (readBack (length (concat [zeros 300, [1, 2, 3]])) (replicate 303 1024)
             (peer (sentSince writing_conn (snd (writeAll writing_conn [zeros 300, [1, 2, 3]]))
                    @ [0x5A, 0xA5, 0x5A, 0xA5, 0x88, 0x00]) [7, 100]))
        = (concat [zeros 300, [1, 2, 3]], None))"
proof -
  let ?A = "[twelve, [], [7, 8, 9 :: byte]]"
  let ?ms = "[5, 1, 1, 2, 3, 4, 5, 6, 7, 8, 9, 10, 1, 1, 1 :: nat]"
  let ?ra = "peer (sentSince masking_conn (snd (writeAll masking_conn ?A)) @ [0x5A, 0xA5, 0x00]) [2, 1, 5]"
  have a1: "needMaskingKey (frameWriterFactory masking_conn)" by code_simp
  have a2: "4 * length ?A \<le> length (entropy (frameWriterFactory masking_conn))" by code_simp
  have a3: "berr (Writer (frameWriterFactory masking_conn)) = None" by code_simp
  have a4: "werr (Writer (frameWriterFactory masking_conn)) = None" by code_simp
  have a5: "wbuf (Writer (frameWriterFactory masking_conn)) = []" by code_simp
  have a6: "PayloadType masking_conn AND 0x0f \<noteq> CloseFrame" by code_simp
  have a7: "\<forall>P \<in> set ?A. length P < 2 ^ 63" by (simp add: twelve_def)
  have a8: "frameReader ?ra = None" by (simp add: peer_def NewFrameConnection_def)
  have a9: "frameHandler ?ra = TcpFrameHandler zeroHandler" by (simp add: peer_def NewFrameConnection_def)
  have a10: "pending (frameReaderFactory ?ra)
      = sentSince masking_conn (snd (writeAll masking_conn ?A)) @ [0x5A, 0xA5, 0x00]"
    by (simp add: peer_def NewFrameConnection_def)
  have a11: "\<forall>m \<in> set ?ms. 0 < m" by simp
  have a12: "length (concat ?A) \<le> length ?ms" by (simp add: twelve_def)
  have a13: "sentSince masking_conn (snd (writeAll masking_conn ?A))
        = [0x5A, 0xA5, 0x5A, 0xA5, 0x82, 0x8C, 0xDE, 0xAD, 0xBE, 0xEF,
           0xDF, 0xAF, 0xBD, 0xEB, 0xDB, 0xAB, 0xB9, 0xE7, 0xD7, 0xA7, 0xB5, 0xE3,
           0x5A, 0xA5, 0x5A, 0xA5, 0x82, 0x80, 0x01, 0x02, 0x03, 0x04,
           0x5A, 0xA5, 0x5A, 0xA5, 0x82, 0x83, 0xCA, 0xFE, 0xBA, 0xBE, 0xCD, 0xF6, 0xB3]"
    by code_simp
  have a14: "list_all (\<lambda>m. 0 < m) ?ms" by simp
  have A: "fst (writeAll masking_conn ?A) = None
    \<and> fst (readBack (length (concat ?A)) ?ms ?ra) = (concat ?A, None)"
    using a1 a2 by (intro write_then_read_round_trip [OF _ a3 a4 a5 a6 a7 a8 a9 a10 a11 a12]) simp
  let ?B = "[zeros 300, [1, 2, 3 :: byte]]"
  let ?rb = "peer (sentSince writing_conn (snd (writeAll writing_conn ?B))
                    @ [0x5A, 0xA5, 0x5A, 0xA5, 0x88, 0x00]) [7, 100]"
  have b1: "\<not> needMaskingKey (frameWriterFactory writing_conn)" by code_simp
  have b3: "berr (Writer (frameWriterFactory writing_conn)) = None" by code_simp
  have b4: "werr (Writer (frameWriterFactory writing_conn)) = None" by code_simp
  have b5: "wbuf (Writer (frameWriterFactory writing_conn)) = []" by code_simp
  have b6: "PayloadType writing_conn AND 0x0f \<noteq> CloseFrame" by code_simp
  have b7: "\<forall>P \<in> set ?B. length P < 2 ^ 63" by (simp add: length_zeros)
  have b8: "frameReader ?rb = None" by (simp add: peer_def NewFrameConnection_def)
  have b9: "frameHandler ?rb = TcpFrameHandler zeroHandler" by (simp add: peer_def NewFrameConnection_def)
  have b10: "pending (frameReaderFactory ?rb)
      = sentSince writing_conn (snd (writeAll writing_conn ?B)) @ [0x5A, 0xA5, 0x5A, 0xA5, 0x88, 0x00]"
    by (simp add: peer_def NewFrameConnection_def)
  have b11: "\<forall>m \<in> set (replicate 303 1024). 0 < (m :: nat)" by simp
  have b12: "length (concat ?B) \<le> length (replicate 303 (1024 :: nat))" by (simp add: length_zeros)
  have B: "fst (writeAll writing_conn ?B) = None
    \<and> fst (readBack (length (concat ?B)) (replicate 303 1024) ?rb) = (concat ?B, None)"
    using b1 by (intro write_then_read_round_trip [OF _ b3 b4 b5 b6 b7 b8 b9 b10 b11 b12]) simp
  from a1 a2 a6 a13 a14 A b1 b6 B length_zeros [of 300] show ?thesis by blast
qed

text \<open>
  C1 as stated fails for a connection whose payload type is the close opcode: the
  message is written as a close frame, and the reader reports \<open>io.EOF\<close> for it and
  returns none of its bytes, which stay on the stream.
\<close>

theorem write_then_read_close_type_counterexample:
  "PayloadType close_typed_conn = CloseFrame
   \<and> fst (Conn_Write close_typed_conn [1, 2, 3]) = (9, None)
   \<and> sentSince close_typed_conn (snd (Conn_Write close_typed_conn [1, 2, 3]))
       = [0x5A, 0xA5, 0x5A, 0xA5, 0x88, 0x03, 1, 2, 3]
   \<and> fst (Conn_Read (peer (sentSince close_typed_conn (snd (Conn_Write close_typed_conn [1, 2, 3]))) []) 1024)
       = ([], Some EOF)
   \<and> fst (readBack 3 [1024, 1024, 1024]
            (peer (sentSince close_typed_conn (snd (Conn_Write close_typed_conn [1, 2, 3]))) []))
       = ([], Some EOF)
   \<and> pending (frameReaderFactory (snd (readBack 3 [1024, 1024, 1024]
            (peer (sentSince close_typed_conn (snd (Conn_Write close_typed_conn [1, 2, 3]))) []))))
       = [1, 2, 3]"
  by code_simp

subsection \<open>C2: frames above the size ceiling\<close>

text \<open>
  C2, as amended. When the next frame \<open>ReadFrame\<close> decodes is not a close frame and
  its payload length (the header's \<open>Length\<close>) exceeds the ceiling, and the stream holds
  the payload, \<open>ReadFrame\<close> returns no data and \<open>ErrFrameTooLarge\<close>, and the stream is
  left right after the payload. In particular a frame written for a 12-byte message,
  read with \<open>MaxPayloadBytes = 10\<close>, fails so.
\<close>

theorem ReadFrame_too_large:
  assumes "frameReader conn = None"
    and "frameHandler conn = TcpFrameHandler th"
  shows "(NewFrameReader (frameReaderFactory conn) = Inr (frame, buf')
          \<and> OpCode (header frame) \<noteq> CloseFrame
          \<and> ceiling_of conn < sint (Length (header frame))
          \<and> sint (Length (header frame)) \<le> int (length (pending buf')) \<longrightarrow>
            fst (Conn_ReadFrame conn) = ([], Some ErrFrameTooLarge)
            \<and> pending (frameReaderFactory (snd (Conn_ReadFrame conn)))
                = drop (nat (sint (Length (header frame)))) (pending buf')
            \<and> frameReader (snd (Conn_ReadFrame conn)) = None)
       \<and> (length msg = 12 \<and> MaxPayloadBytes conn = 10
          \<and> (\<forall>key. MaskingKey wh = Some key \<longrightarrow> length key = 4)
          \<and> hd (writeHeader wh (length msg)) AND 0x0f \<noteq> CloseFrame
          \<and> pending (frameReaderFactory conn) = wireFrame wh msg @ rest \<longrightarrow>
            fst (Conn_ReadFrame conn) = ([], Some ErrFrameTooLarge)
            \<and> pending (frameReaderFactory (snd (Conn_ReadFrame conn))) = rest)"
proof (intro conjI impI)
  assume a: "NewFrameReader (frameReaderFactory conn) = Inr (frame, buf')
          \<and> OpCode (header frame) \<noteq> CloseFrame
          \<and> ceiling_of conn < sint (Length (header frame))
          \<and> sint (Length (header frame)) \<le> int (length (pending buf'))"
  from NewFrameReader_Inr [of "frameReaderFactory conn" frame buf'] a
  have f: "limitN frame = sint (Length (header frame))"
    "\<And>key. MaskingKey (header frame) = Some key \<Longrightarrow> length key = 4"
    by auto
  from a HandleFrame_not_close [of frame th] obtain r h' where
    r: "tcpFrameHandler_HandleFrame th (TcpFrame frame) = ((Some (TcpFrame r), None), h')"
      "MaskingKey (header r) = MaskingKey (header frame)"
      "Length (header r) = Length (header frame)"
    and lr: "limitN r = limitN frame"
    by blast
  have "\<exists>conn'. ReadFrame_loop conn = (([], Some ErrFrameTooLarge), conn')
           \<and> pending (frameReaderFactory conn') = drop (nat (limitN r)) (pending buf')
           \<and> frameReader conn' = frameReader conn"
    using a r f lr assms by (intro ReadFrame_loop_too_large [where decoded = frame and h' = "TcpFrameHandler h'"]) auto
  then show "fst (Conn_ReadFrame conn) = ([], Some ErrFrameTooLarge)"
    "pending (frameReaderFactory (snd (Conn_ReadFrame conn)))
                = drop (nat (sint (Length (header frame)))) (pending buf')"
    "frameReader (snd (Conn_ReadFrame conn)) = None"
    using assms f lr by (auto simp: Conn_ReadFrame_def)
next
  assume a: "length msg = 12 \<and> MaxPayloadBytes conn = 10
          \<and> (\<forall>key. MaskingKey wh = Some key \<longrightarrow> length key = 4)
          \<and> hd (writeHeader wh (length msg)) AND 0x0f \<noteq> CloseFrame
          \<and> pending (frameReaderFactory conn) = wireFrame wh msg @ rest"
  define key where "key = (case MaskingKey wh of None \<Rightarrow> [] | Some k \<Rightarrow> k)"
  define payload where "payload = (case MaskingKey wh of None \<Rightarrow> msg | Some k \<Rightarrow> xorKey k 0 msg)"
  have k: "case MaskingKey wh of None \<Rightarrow> key = [] | Some k \<Rightarrow> key = k \<and> length k = 4"
    using a by (auto simp: key_def split: option.splits)
  have p: "pending (frameReaderFactory conn) = preambule @ writeHeader wh (length msg) @ key @ payload @ rest"
    using a by (simp add: wireFrame_def key_def payload_def split: option.splits)
  from NewFrameReader_writeHeader [OF k p] obtain frame where
    d: "NewFrameReader (frameReaderFactory conn) = Inr (frame, (frameReaderFactory conn)\<lparr>pending := payload @ rest\<rparr>)"
    and f: "Length (header frame) = of_nat (length msg)" "limitN frame = sint (of_nat (length msg) :: 64 word)"
      "MaskingKey (header frame) = MaskingKey wh"
      "OpCode (header frame) = hd (writeHeader wh (length msg)) AND 0x0f"
    by blast
  have s: "sint (of_nat (length msg) :: 64 word) = 12" using a by simp
  have lp: "length payload = 12" using a by (simp add: payload_def split: option.splits)
  from a HandleFrame_not_close [of frame th] f obtain r h' where
    r: "tcpFrameHandler_HandleFrame th (TcpFrame frame) = ((Some (TcpFrame r), None), h')"
      "MaskingKey (header r) = MaskingKey (header frame)"
      "Length (header r) = Length (header frame)"
    and lr: "limitN r = limitN frame"
    by metis
  have "\<exists>conn'. ReadFrame_loop conn = (([], Some ErrFrameTooLarge), conn')
           \<and> pending (frameReaderFactory conn') = drop (nat (limitN r)) (pending ((frameReaderFactory conn)\<lparr>pending := payload @ rest\<rparr>))
           \<and> frameReader conn' = frameReader conn"
    using a r f lr s lp assms d
    by (intro ReadFrame_loop_too_large [where decoded = frame and h' = "TcpFrameHandler h'"])
       (auto simp: ceiling_of_def)
  then show "fst (Conn_ReadFrame conn) = ([], Some ErrFrameTooLarge)"
    "pending (frameReaderFactory (snd (Conn_ReadFrame conn))) = rest"
    using assms f lr s lp by (auto simp: Conn_ReadFrame_def)
qed

theorem ReadFrame_too_large_witness:
  "frameReader (small_conn ([0x5A, 0xA5, 0x5A, 0xA5, 0x81, 12] @ twelve)) = None
   \<and> frameHandler (small_conn ([0x5A, 0xA5, 0x5A, 0xA5, 0x81, 12] @ twelve)) = TcpFrameHandler zeroHandler
   \<and> NewFrameReader (frameReaderFactory (small_conn ([0x5A, 0xA5, 0x5A, 0xA5, 0x81, 12] @ twelve)))
        = Inr (text_12, \<lparr>pending = twelve, rerr = EOF, sched = []\<rparr>)
   \<and> OpCode (header text_12) \<noteq> CloseFrame
   \<and> ceiling_of (small_conn ([0x5A, 0xA5, 0x5A, 0xA5, 0x81, 12] @ twelve)) < sint (Length (header text_12))
   \<and> sint (Length (header text_12)) \<le> int (length (pending \<lparr>pending = twelve, rerr = EOF, sched = []\<rparr>))
   \<and> length twelve = 12
   \<and> MaxPayloadBytes (small_conn ([0x5A, 0xA5, 0x5A, 0xA5, 0x81, 12] @ twelve)) = 10
   \<and> hd (writeHeader (zeroHeader\<lparr>Fin := True, OpCode := TextFrame\<rparr>) (length twelve)) AND 0x0f \<noteq> CloseFrame
   \<and> pending (frameReaderFactory (small_conn ([0x5A, 0xA5, 0x5A, 0xA5, 0x81, 12] @ twelve)))
       = wireFrame (zeroHeader\<lparr>Fin := True, OpCode := TextFrame\<rparr>) twelve @ []
   \<and> fst (Conn_ReadFrame (small_conn ([0x5A, 0xA5, 0x5A, 0xA5, 0x81, 12] @ twelve))) = ([], Some ErrFrameTooLarge)
   \<and> pending (frameReaderFactory (snd (Conn_ReadFrame (small_conn ([0x5A, 0xA5, 0x5A, 0xA5, 0x81, 12] @ twelve))))) = []
   \<and> frameReader (snd (Conn_ReadFrame (small_conn ([0x5A, 0xA5, 0x5A, 0xA5, 0x81, 12] @ twelve)))) = None"
proof -
  define c where "c = small_conn ([0x5A, 0xA5, 0x5A, 0xA5, 0x81, 12] @ twelve)"
  have 1: "frameReader c = None" unfolding c_def by code_simp
  have 2: "frameHandler c = TcpFrameHandler zeroHandler"
    by (simp add: c_def small_conn_def NewFrameConnection_def)
  have 3: "NewFrameReader (frameReaderFactory c) = Inr (text_12, \<lparr>pending = twelve, rerr = EOF, sched = []\<rparr>)"
    unfolding c_def by code_simp
  have 4: "OpCode (header text_12) \<noteq> CloseFrame" by code_simp
  have 5: "ceiling_of c < sint (Length (header text_12))" unfolding c_def by code_simp
  have 6: "sint (Length (header text_12)) \<le> int (length (pending \<lparr>pending = twelve, rerr = EOF, sched = []\<rparr>))"
    by code_simp
  have 7: "length twelve = 12" by code_simp
  have 8: "MaxPayloadBytes c = 10" unfolding c_def by code_simp
  have 9: "\<forall>key. MaskingKey (zeroHeader\<lparr>Fin := True, OpCode := TextFrame\<rparr>) = Some key \<longrightarrow> length key = 4"
    by (simp add: zeroHeader_def)
  have 10: "hd (writeHeader (zeroHeader\<lparr>Fin := True, OpCode := TextFrame\<rparr>) (length twelve)) AND 0x0f \<noteq> CloseFrame"
    by code_simp
  have 11: "pending (frameReaderFactory c) = wireFrame (zeroHeader\<lparr>Fin := True, OpCode := TextFrame\<rparr>) twelve @ []"
    unfolding c_def by code_simp
  note th = ReadFrame_too_large [OF 1 2, of text_12 "\<lparr>pending = twelve, rerr = EOF, sched = []\<rparr>"
      twelve "zeroHeader\<lparr>Fin := True, OpCode := TextFrame\<rparr>" "[]"]
  have r: "fst (Conn_ReadFrame c) = ([], Some ErrFrameTooLarge)
    \<and> pending (frameReaderFactory (snd (Conn_ReadFrame c))) = []
    \<and> frameReader (snd (Conn_ReadFrame c)) = None"
    using th [THEN conjunct1] th [THEN conjunct2] 3 4 5 6 7 8 9 10 11 by simp
  from 1 2 3 4 5 6 7 8 10 11 r show ?thesis unfolding c_def by blast
qed

text \<open>
  C2 as stated fails on a close frame: with \<open>MaxPayloadBytes = 10\<close> and an incoming close
  frame whose length field is 12, \<open>ReadFrame\<close> fails with \<open>io.EOF\<close>, not with
  \<open>ErrFrameTooLarge\<close>, and leaves the 12 payload bytes in the stream.
\<close>

theorem ReadFrame_too_large_counterexample:
  "NewFrameReader (frameReaderFactory (small_conn ([0x5A, 0xA5, 0x5A, 0xA5, 0x88, 12] @ twelve)))
     = Inr (close_12, \<lparr>pending = twelve, rerr = EOF, sched = []\<rparr>)
   \<and> sint (Length (header close_12)) = 12
   \<and> ceiling_of (small_conn ([0x5A, 0xA5, 0x5A, 0xA5, 0x88, 12] @ twelve)) = 10
   \<and> fst (Conn_ReadFrame (small_conn ([0x5A, 0xA5, 0x5A, 0xA5, 0x88, 12] @ twelve))) = ([], Some EOF)
   \<and> fst (Conn_ReadFrame (small_conn ([0x5A, 0xA5, 0x5A, 0xA5, 0x88, 12] @ twelve)))
        \<noteq> ([], Some ErrFrameTooLarge)
   \<and> pending (frameReaderFactory (snd (Conn_ReadFrame (small_conn ([0x5A, 0xA5, 0x5A, 0xA5, 0x88, 12] @ twelve)))))
        = twelve"
  by code_simp

text \<open>
  The ceiling is compared with the payload length, not with the total length \<open>Len\<close>: a
  frame with 10 payload bytes has \<open>Len\<close> 12 and passes a ceiling of 10.
\<close>

lemma ReadFrame_ceiling_is_on_payload:
  "fst (Conn_ReadFrame (small_conn ([0x5A, 0xA5, 0x5A, 0xA5, 0x82, 10] @ take 10 twelve)))
     = (take 10 twelve, None)
   \<and> (case NewFrameReader (frameReaderFactory (small_conn ([0x5A, 0xA5, 0x5A, 0xA5, 0x82, 10] @ take 10 twelve))) of
        Inl _ \<Rightarrow> False
      | Inr (frame, _) \<Rightarrow> sint (tcpFrameReader_Len frame) = 12 \<and> sint (Length (header frame)) = 10)"
  by code_simp

subsection \<open>C3: close frames\<close>

text \<open>
  C3. A frame with opcode close makes the handler return no frame and \<open>io.EOF\<close>; a
  frame of the codec with any other opcode makes it return a frame and no error. When
  the next frame a \<open>Read\<close> or a \<open>ReadFrame\<close> decodes is a close frame, the call fails
  with that \<open>io.EOF\<close> and returns no bytes. Conversely, on a stream whose own error is
  not \<open>io.EOF\<close>, a \<open>Read\<close> or a \<open>ReadFrame\<close> that fails with \<open>io.EOF\<close> has decoded a
  close frame further down the stream and has stopped right after its header.
\<close>

theorem close_frame_ends_the_stream:
  "(frame_PayloadType f = CloseFrame \<longrightarrow>
      tcpFrameHandler_HandleFrame h f = ((None, Some EOF), h))
   \<and> (OpCode (header fr) \<noteq> CloseFrame \<longrightarrow>
      (\<exists>fr' h'. tcpFrameHandler_HandleFrame h (TcpFrame fr) = ((Some (TcpFrame fr'), None), h')))
   \<and> (frameReader conn = None \<and> frameHandler conn = TcpFrameHandler h
        \<and> NewFrameReader (frameReaderFactory conn) = Inr (frame, buf')
        \<and> OpCode (header frame) = CloseFrame \<longrightarrow>
      fst (Conn_Read conn m) = ([], Some EOF) \<and> fst (Conn_ReadFrame conn) = ([], Some EOF))
   \<and> (frameHandler c = TcpFrameHandler k \<and> rerr (frameReaderFactory c) \<noteq> EOF
        \<and> snd (fst (Conn_Read c n)) = Some EOF \<longrightarrow>
      (\<exists>buf decoded pre.
          NewFrameReader buf = Inr (decoded, frameReaderFactory (snd (Conn_Read c n)))
          \<and> OpCode (header decoded) = CloseFrame
          \<and> pending (frameReaderFactory c) = pre @ pending buf))
   \<and> (frameHandler c = TcpFrameHandler k \<and> rerr (frameReaderFactory c) \<noteq> EOF
        \<and> snd (fst (Conn_ReadFrame c)) = Some EOF \<longrightarrow>
      (\<exists>buf decoded pre.
          NewFrameReader buf = Inr (decoded, frameReaderFactory (snd (Conn_ReadFrame c)))
          \<and> OpCode (header decoded) = CloseFrame
          \<and> pending (frameReaderFactory c) = pre @ pending buf))"
proof (intro conjI impI)
  assume "frame_PayloadType f = CloseFrame"
  then show "tcpFrameHandler_HandleFrame h f = ((None, Some EOF), h)" by (rule HandleFrame_close)
next
  assume "OpCode (header fr) \<noteq> CloseFrame"
  from HandleFrame_not_close [OF this, of h]
  show "\<exists>fr' h'. tcpFrameHandler_HandleFrame h (TcpFrame fr) = ((Some (TcpFrame fr'), None), h')"
    by blast
next
  assume a: "frameReader conn = None \<and> frameHandler conn = TcpFrameHandler h
        \<and> NewFrameReader (frameReaderFactory conn) = Inr (frame, buf')
        \<and> OpCode (header frame) = CloseFrame"
  then show "fst (Conn_Read conn m) = ([], Some EOF)"
    using Conn_Read_close [of conn h frame buf' m] by simp
  from a show "fst (Conn_ReadFrame conn) = ([], Some EOF)"
    using ReadFrame_loop_close [of conn h frame buf'] by (simp add: Conn_ReadFrame_def)
next
  assume a: "frameHandler c = TcpFrameHandler k \<and> rerr (frameReaderFactory c) \<noteq> EOF
        \<and> snd (fst (Conn_Read c n)) = Some EOF"
  obtain bs e c' where r: "Conn_Read c n = ((bs, e), c')" by (metis prod.exhaust)
  with a have "Conn_Read c n = ((bs, Some EOF), c')" by simp
  from Conn_Read_EOF_is_close [OF _ _ this, of k] a r
  show "\<exists>buf decoded pre.
          NewFrameReader buf = Inr (decoded, frameReaderFactory (snd (Conn_Read c n)))
          \<and> OpCode (header decoded) = CloseFrame
          \<and> pending (frameReaderFactory c) = pre @ pending buf"
    by auto
next
  assume a: "frameHandler c = TcpFrameHandler k \<and> rerr (frameReaderFactory c) \<noteq> EOF
        \<and> snd (fst (Conn_ReadFrame c)) = Some EOF"
  obtain bs e c' where r: "Conn_ReadFrame c = ((bs, e), c')" by (metis prod.exhaust)
  with a have "Conn_ReadFrame c = ((bs, Some EOF), c')" by simp
  from Conn_ReadFrame_EOF_is_close [OF _ _ this, of k] a r
  show "\<exists>buf decoded pre.
          NewFrameReader buf = Inr (decoded, frameReaderFactory (snd (Conn_ReadFrame c)))
          \<and> OpCode (header decoded) = CloseFrame
          \<and> pending (frameReaderFactory c) = pre @ pending buf"
    by auto
qed

theorem close_frame_ends_the_stream_witness:
  "frame_PayloadType (TcpFrame close_frame) = CloseFrame
   \<and> OpCode (header text_frame) \<noteq> CloseFrame
   \<and> frameReader closing_conn = None \<and> frameHandler closing_conn = TcpFrameHandler zeroHandler
   \<and> NewFrameReader (frameReaderFactory closing_conn)
        = Inr (close_frame, \<lparr>pending = [0x03, 0xE8], rerr = EOF, sched = []\<rparr>)
   \<and> OpCode (header close_frame) = CloseFrame
   \<and> frameHandler failing_conn = TcpFrameHandler zeroHandler
   \<and> rerr (frameReaderFactory failing_conn) \<noteq> EOF
   \<and> snd (fst (Conn_Read failing_conn 16)) = Some EOF
   \<and> snd (fst (Conn_ReadFrame failing_conn)) = Some EOF
   \<and> tcpFrameHandler_HandleFrame zeroHandler (TcpFrame close_frame) = ((None, Some EOF), zeroHandler)
   \<and> (\<exists>fr' h'. tcpFrameHandler_HandleFrame zeroHandler (TcpFrame text_frame) = ((Some (TcpFrame fr'), None), h'))
   \<and> fst (Conn_Read closing_conn 16) = ([], Some EOF)
   \<and> fst (Conn_ReadFrame closing_conn) = ([], Some EOF)
   \<and> (\<exists>buf decoded pre.
          NewFrameReader buf = Inr (decoded, frameReaderFactory (snd (Conn_Read failing_conn 16)))
          \<and> OpCode (header decoded) = CloseFrame
          \<and> pending (frameReaderFactory failing_conn) = pre @ pending buf)
   \<and> (\<exists>buf decoded pre.
          NewFrameReader buf = Inr (decoded, frameReaderFactory (snd (Conn_ReadFrame failing_conn)))
          \<and> OpCode (header decoded) = CloseFrame
          \<and> pending (frameReaderFactory failing_conn) = pre @ pending buf)"
proof -
  have 1: "frame_PayloadType (TcpFrame close_frame) = CloseFrame" by code_simp
  have 2: "OpCode (header text_frame) \<noteq> CloseFrame" by code_simp
  have 3: "frameReader closing_conn = None" by code_simp
  have 4: "frameHandler closing_conn = TcpFrameHandler zeroHandler"
    by (simp add: closing_conn_def NewFrameConnection_def)
  have 5: "NewFrameReader (frameReaderFactory closing_conn)
        = Inr (close_frame, \<lparr>pending = [0x03, 0xE8], rerr = EOF, sched = []\<rparr>)" by code_simp
  have 6: "OpCode (header close_frame) = CloseFrame" by code_simp
  have 7: "frameHandler failing_conn = TcpFrameHandler zeroHandler"
    by (simp add: failing_conn_def NewFrameConnection_def)
  have 8: "rerr (frameReaderFactory failing_conn) \<noteq> EOF" by code_simp
  have 9: "snd (fst (Conn_Read failing_conn 16)) = Some EOF" by code_simp
  have 10: "snd (fst (Conn_ReadFrame failing_conn)) = Some EOF" by code_simp
  note t = close_frame_ends_the_stream [of "TcpFrame close_frame" zeroHandler text_frame closing_conn
      close_frame "\<lparr>pending = [0x03, 0xE8], rerr = EOF, sched = []\<rparr>" 16 failing_conn zeroHandler 16]
  from t 1 have a: "tcpFrameHandler_HandleFrame zeroHandler (TcpFrame close_frame) = ((None, Some EOF), zeroHandler)"
    by blast
  from t 2 have b: "\<exists>fr' h'. tcpFrameHandler_HandleFrame zeroHandler (TcpFrame text_frame) = ((Some (TcpFrame fr'), None), h')"
    by blast
  from t 3 4 5 6 have c: "fst (Conn_Read closing_conn 16) = ([], Some EOF) \<and> fst (Conn_ReadFrame closing_conn) = ([], Some EOF)"
    by blast
  from t 7 8 9 have d: "\<exists>buf decoded pre.
          NewFrameReader buf = Inr (decoded, frameReaderFactory (snd (Conn_Read failing_conn 16)))
          \<and> OpCode (header decoded) = CloseFrame
          \<and> pending (frameReaderFactory failing_conn) = pre @ pending buf"
    by blast
  from t 7 8 10 have e: "\<exists>buf decoded pre.
          NewFrameReader buf = Inr (decoded, frameReaderFactory (snd (Conn_ReadFrame failing_conn)))
          \<and> OpCode (header decoded) = CloseFrame
          \<and> pending (frameReaderFactory failing_conn) = pre @ pending buf"
    by blast
  from 1 2 3 4 5 6 7 8 9 10 a b c d e show ?thesis by blast
qed

subsection \<open>C4: continuation frames\<close>

text \<open>
  C4. A continuation frame (opcode 0) handed to the frame handler is returned with its
  opcode set to the held payload type. After any frames \<open>fs\<close>, a text or binary frame
  \<open>f\<close> and frames \<open>gs\<close> that are neither text nor binary, the held type is the opcode
  of \<open>f\<close>, and that is what the continuation frame reports. In particular a
  continuation frame right after a text frame reports text.
\<close>

theorem continuation_takes_held_type:
  assumes c: "OpCode (header fr) = ContinuationFrame"
  shows "tcpFrameHandler_HandleFrame h (TcpFrame fr) =
           ((Some (TcpFrame (fr\<lparr>header := (header fr)\<lparr>OpCode := payloadType h\<rparr>\<rparr>)), None), h)
       \<and> ((frame_PayloadType f = TextFrame \<or> frame_PayloadType f = BinaryFrame)
            \<and> (\<forall>g \<in> set gs. frame_PayloadType g \<noteq> TextFrame \<and> frame_PayloadType g \<noteq> BinaryFrame) \<longrightarrow>
          payloadType (handled h0 (fs @ f # gs)) = frame_PayloadType f
          \<and> tcpFrameHandler_HandleFrame (handled h0 (fs @ f # gs)) (TcpFrame fr) =
              ((Some (TcpFrame (fr\<lparr>header := (header fr)\<lparr>OpCode := frame_PayloadType f\<rparr>\<rparr>)), None),
               handled h0 (fs @ f # gs)))
       \<and> (OpCode (header t) = TextFrame \<longrightarrow>
          fst (fst (tcpFrameHandler_HandleFrame (snd (tcpFrameHandler_HandleFrame h0 (TcpFrame t))) (TcpFrame fr)))
            = Some (TcpFrame (fr\<lparr>header := (header fr)\<lparr>OpCode := TextFrame\<rparr>\<rparr>)))"
proof (intro conjI impI)
  show "tcpFrameHandler_HandleFrame h (TcpFrame fr) =
           ((Some (TcpFrame (fr\<lparr>header := (header fr)\<lparr>OpCode := payloadType h\<rparr>\<rparr>)), None), h)"
    using c by (rule HandleFrame_continuation)
next
  assume a: "(frame_PayloadType f = TextFrame \<or> frame_PayloadType f = BinaryFrame)
            \<and> (\<forall>g \<in> set gs. frame_PayloadType g \<noteq> TextFrame \<and> frame_PayloadType g \<noteq> BinaryFrame)"
  have "handled h0 (fs @ f # gs) = handled (handled (handled h0 fs) [f]) gs"
    by (simp add: handled_append)
  also have "\<dots> = handled (handled h0 fs) [f]" using a by (intro handled_keeps) simp
  finally show p: "payloadType (handled h0 (fs @ f # gs)) = frame_PayloadType f"
    using a by (simp add: HandleFrame_data)
  show "tcpFrameHandler_HandleFrame (handled h0 (fs @ f # gs)) (TcpFrame fr) =
           ((Some (TcpFrame (fr\<lparr>header := (header fr)\<lparr>OpCode := frame_PayloadType f\<rparr>\<rparr>)), None),
            handled h0 (fs @ f # gs))"
    using HandleFrame_continuation [OF c, of "handled h0 (fs @ f # gs)"] p by simp
next
  assume t: "OpCode (header t) = TextFrame"
  then have "tcpFrameHandler_HandleFrame h0 (TcpFrame t) = ((Some (TcpFrame t), None), h0\<lparr>payloadType := TextFrame\<rparr>)"
    using HandleFrame_data [of "TcpFrame t" h0] by (simp add: tcpFrameReader_PayloadType_def)
  then show "fst (fst (tcpFrameHandler_HandleFrame (snd (tcpFrameHandler_HandleFrame h0 (TcpFrame t))) (TcpFrame fr)))
           = Some (TcpFrame (fr\<lparr>header := (header fr)\<lparr>OpCode := TextFrame\<rparr>\<rparr>))"
    using c by (simp add: HandleFrame_continuation)
qed

theorem continuation_takes_held_type_witness:
  "OpCode (header continuation_frame) = ContinuationFrame
   \<and> tcpFrameHandler_HandleFrame \<lparr>payloadType = BinaryFrame\<rparr> (TcpFrame continuation_frame) =
       ((Some (TcpFrame (continuation_frame\<lparr>header := (header continuation_frame)\<lparr>OpCode := BinaryFrame\<rparr>\<rparr>)), None),
        \<lparr>payloadType = BinaryFrame\<rparr>)
   \<and> payloadType (handled zeroHandler ([] @ TcpFrame text_frame # [TcpFrame continuation_frame])) = TextFrame
   \<and> fst (fst (tcpFrameHandler_HandleFrame
         (snd (tcpFrameHandler_HandleFrame zeroHandler (TcpFrame text_frame))) (TcpFrame continuation_frame)))
       = Some (TcpFrame (continuation_frame\<lparr>header := (header continuation_frame)\<lparr>OpCode := TextFrame\<rparr>\<rparr>))"
proof -
  have c: "OpCode (header continuation_frame) = ContinuationFrame" by code_simp
  have f: "frame_PayloadType (TcpFrame text_frame) = TextFrame \<or> frame_PayloadType (TcpFrame text_frame) = BinaryFrame"
    by code_simp
  have g: "\<forall>g \<in> set [TcpFrame continuation_frame]. frame_PayloadType g \<noteq> TextFrame \<and> frame_PayloadType g \<noteq> BinaryFrame"
    by code_simp
  have t: "OpCode (header text_frame) = TextFrame" by code_simp
  have ft: "frame_PayloadType (TcpFrame text_frame) = TextFrame" by code_simp
  note th = continuation_takes_held_type [OF c, of "\<lparr>payloadType = BinaryFrame\<rparr>" "TcpFrame text_frame"
      "[TcpFrame continuation_frame]" zeroHandler "[]" text_frame]
  from th c f g t ft show ?thesis by simp
qed

subsection \<open>C5: the boundaries of the length indicator\<close>

text \<open>
  C5. For a message of 125, 126, 65535 or 65536 bytes the header the writer builds has,
  after its first byte, 1, 3, 3 and 9 bytes (not counting a masking key): the byte with
  the length indicator 125, 126, 126 and 127, and then no byte, the two bytes 0x00 0x7E,
  the two bytes 0xFF 0xFF and the eight bytes 00 00 00 00 00 01 00 00. The writer puts
  the frame on the stream as preamble, header, key and payload, and the reader decodes
  from it a frame whose length is that of the message, with the stream left at the
  payload.
\<close>

theorem length_indicator_boundaries:
  assumes n: "length msg = 125 \<or> length msg = 126 \<or> length msg = 65535 \<or> length msg = 65536"
    and key: "\<And>key. MaskingKey h = Some key \<Longrightarrow> length key = 4"
    and buf: "pending buf = wireFrame h msg @ rest"
  shows "length (writeHeader h (length msg)) - 1 =
           (if length msg = 125 then 1 else if length msg = 65536 then 9 else 3)
       \<and> writeHeader h (length msg) ! 1 AND 0x7f =
           (if length msg = 125 then 125 else if length msg = 65536 then 127 else 126)
       \<and> drop 2 (writeHeader h (length msg)) =
           (if length msg = 125 then []
            else if length msg = 126 then [0x00, 0x7E]
            else if length msg = 65535 then [0xFF, 0xFF]
            else [0, 0, 0, 0, 0, 1, 0, 0])
       \<and> (berr w = None \<and> werr w = None \<longrightarrow>
            sent (snd (tcpFrameWriter_Write h msg w)) = sent w @ wbuf w @ wireFrame h msg)
       \<and> (\<exists>frame buf'. NewFrameReader buf = Inr (frame, buf')
             \<and> Length (header frame) = of_nat (length msg)
             \<and> sint (Length (header frame)) = int (length msg)
             \<and> pending buf' =
                 (case MaskingKey h of None \<Rightarrow> msg | Some k \<Rightarrow> xorKey k 0 msg) @ rest)"
proof -
  define k where "k = (case MaskingKey h of None \<Rightarrow> [] | Some k \<Rightarrow> k)"
  define payload where "payload = (case MaskingKey h of None \<Rightarrow> msg | Some k \<Rightarrow> xorKey k 0 msg)"
  have kk: "case MaskingKey h of None \<Rightarrow> k = [] | Some k' \<Rightarrow> k = k' \<and> length k' = 4"
    using key by (auto simp: k_def split: option.splits)
  have p: "pending buf = preambule @ writeHeader h (length msg) @ k @ payload @ rest"
    using buf by (simp add: wireFrame_def k_def payload_def split: option.splits)
  from NewFrameReader_writeHeader [OF kk p] obtain frame where
    d: "NewFrameReader buf = Inr (frame, buf\<lparr>pending := payload @ rest\<rparr>)"
    and f: "Length (header frame) = of_nat (length msg)"
    by blast
  have "length msg < 2 ^ 63" using n by auto
  then have s: "sint (of_nat (length msg) :: 64 word) = int (length msg)" by (rule sint_of_nat64)
  have dec: "\<exists>frame buf'. NewFrameReader buf = Inr (frame, buf')
             \<and> Length (header frame) = of_nat (length msg)
             \<and> sint (Length (header frame)) = int (length msg)
             \<and> pending buf' = payload @ rest"
    using d f s by (intro exI [of _ frame] exI [of _ "buf\<lparr>pending := payload @ rest\<rparr>"]) simp
  have len: "length (writeHeader h (length msg)) - 1 =
           (if length msg = 125 then 1 else if length msg = 65536 then 9 else 3)"
    using n by (auto simp: length_writeHeader)
  have ind: "writeHeader h (length msg) ! 1 AND 0x7f =
           (if length msg = 125 then 125 else if length msg = 65536 then 127 else 126)"
    using n writeHeader_indicator [of h "length msg"] by auto
  have ext: "drop 2 (writeHeader h (length msg)) =
           (if length msg = 125 then []
            else if length msg = 126 then [0x00, 0x7E]
            else if length msg = 65535 then [0xFF, 0xFF]
            else [0, 0, 0, 0, 0, 1, 0, 0])"
    using n by (auto simp: writeHeader_tail)
  have wr: "berr w = None \<and> werr w = None \<longrightarrow>
            sent (snd (tcpFrameWriter_Write h msg w)) = sent w @ wbuf w @ wireFrame h msg"
    using key by (auto simp: tcpFrameWriter_Write_ok)
  from len ind ext wr dec show ?thesis unfolding payload_def by blast
qed

theorem length_indicator_boundaries_witness:
  "(length (zeros 125) = 125
    \<and> length (writeHeader text_header (length (zeros 125))) - 1 = 1
    \<and> (\<exists>frame buf'. NewFrameReader (stream_of (wireFrame text_header (zeros 125))) = Inr (frame, buf')
          \<and> sint (Length (header frame)) = 125))
   \<and> (length (zeros 126) = 126
    \<and> length (writeHeader text_header (length (zeros 126))) - 1 = 3
    \<and> (\<exists>frame buf'. NewFrameReader (stream_of (wireFrame text_header (zeros 126))) = Inr (frame, buf')
          \<and> sint (Length (header frame)) = 126))
   \<and> (length (zeros 65535) = 65535
    \<and> length (writeHeader text_header (length (zeros 65535))) - 1 = 3
    \<and> (\<exists>frame buf'. NewFrameReader (stream_of (wireFrame text_header (zeros 65535))) = Inr (frame, buf')
          \<and> sint (Length (header frame)) = 65535))
   \<and> (length (zeros 65536) = 65536
    \<and> length (writeHeader text_header (length (zeros 65536))) - 1 = 9
    \<and> (\<exists>frame buf'. NewFrameReader (stream_of (wireFrame text_header (zeros 65536))) = Inr (frame, buf')
          \<and> sint (Length (header frame)) = 65536))"
proof -
  have a: "length (zeros 125) = 125 \<or> length (zeros 125) = 126 \<or> length (zeros 125) = 65535
      \<or> length (zeros 125) = 65536"
    by (simp add: length_zeros)
  have b: "length (zeros 126) = 125 \<or> length (zeros 126) = 126 \<or> length (zeros 126) = 65535
      \<or> length (zeros 126) = 65536"
    by (simp add: length_zeros)
  have c: "length (zeros 65535) = 125 \<or> length (zeros 65535) = 126 \<or> length (zeros 65535) = 65535
      \<or> length (zeros 65535) = 65536"
    by (simp add: length_zeros)
  have d: "length (zeros 65536) = 125 \<or> length (zeros 65536) = 126 \<or> length (zeros 65536) = 65535
      \<or> length (zeros 65536) = 65536"
    by (simp add: length_zeros)
  note A = length_indicator_boundaries [OF a text_header_key stream_of_wire]
  note B = length_indicator_boundaries [OF b text_header_key stream_of_wire]
  note C = length_indicator_boundaries [OF c text_header_key stream_of_wire]
  note D = length_indicator_boundaries [OF d text_header_key stream_of_wire]
  have A': "length (writeHeader text_header (length (zeros 125))) - 1 = 1
    \<and> (\<exists>frame buf'. NewFrameReader (stream_of (wireFrame text_header (zeros 125))) = Inr (frame, buf')
          \<and> sint (Length (header frame)) = 125)"
    using A [THEN conjunct1] A [THEN conjunct2, THEN conjunct2, THEN conjunct2, THEN conjunct2]
    by (simp add: length_zeros) blast
  have B': "length (writeHeader text_header (length (zeros 126))) - 1 = 3
    \<and> (\<exists>frame buf'. NewFrameReader (stream_of (wireFrame text_header (zeros 126))) = Inr (frame, buf')
          \<and> sint (Length (header frame)) = 126)"
    using B [THEN conjunct1] B [THEN conjunct2, THEN conjunct2, THEN conjunct2, THEN conjunct2]
    by (simp add: length_zeros) blast
  have C': "length (writeHeader text_header (length (zeros 65535))) - 1 = 3
    \<and> (\<exists>frame buf'. NewFrameReader (stream_of (wireFrame text_header (zeros 65535))) = Inr (frame, buf')
          \<and> sint (Length (header frame)) = 65535)"
    using C [THEN conjunct1] C [THEN conjunct2, THEN conjunct2, THEN conjunct2, THEN conjunct2]
    by (simp add: length_zeros) blast
  have D': "length (writeHeader text_header (length (zeros 65536))) - 1 = 9
    \<and> (\<exists>frame buf'. NewFrameReader (stream_of (wireFrame text_header (zeros 65536))) = Inr (frame, buf')
          \<and> sint (Length (header frame)) = 65536)"
    using D [THEN conjunct1] D [THEN conjunct2, THEN conjunct2, THEN conjunct2, THEN conjunct2]
    by (simp add: length_zeros) blast
  from A' B' C' D' show ?thesis by (simp add: length_zeros)
qed

subsection \<open>C6: what \<open>Conn.Write\<close> returns\<close>

text \<open>
  C6, as amended. When the factory yields a writer and the stream accepts the bytes,
  \<open>Conn.Write(msg)\<close> returns with no error the number of bytes of the whole frame: the
  4 preamble bytes, the header bytes (with the 4 key bytes of a masked frame) and
  \<open>len(msg)\<close>. That is the length of what it appended to the stream, and at least 6 more
  than \<open>len(msg)\<close>.
\<close>

theorem Conn_Write_returns_frame_size:
  assumes "NewFrameWriter (frameWriterFactory conn) (PayloadType conn) = (Inr h, f')"
    and "berr (Writer (frameWriterFactory conn)) = None"
    and "werr (Writer (frameWriterFactory conn)) = None"
  shows "fst (Conn_Write conn msg) =
           (4 + length (writeHeader h (length msg))
              + (case MaskingKey h of None \<Rightarrow> 0 | Some key \<Rightarrow> 4) + length msg, None)
       \<and> sent (Writer (frameWriterFactory (snd (Conn_Write conn msg)))) =
           sent (Writer (frameWriterFactory conn)) @ wbuf (Writer (frameWriterFactory conn)) @ wireFrame h msg
       \<and> fst (fst (Conn_Write conn msg)) = length (wireFrame h msg)
       \<and> length msg + 6 \<le> fst (fst (Conn_Write conn msg))"
proof -
  note c = Conn_Write_ok [OF assms, of msg]
  note w = NewFrameWriter_Inr [OF assms(1)]
  have k: "\<And>key. MaskingKey h = Some key \<Longrightarrow> length key = 4"
    using NewFrameWriter_key [OF assms(1)] .
  have l: "length (wireFrame h msg) =
        4 + length (writeHeader h (length msg))
          + (case MaskingKey h of None \<Rightarrow> 0 | Some key \<Rightarrow> 4) + length msg"
    using k by (simp add: length_wireFrame split: option.splits)
  have "2 \<le> length (writeHeader h (length msg))" by (simp add: length_writeHeader)
  with l have "length msg + 6 \<le> length (wireFrame h msg)" by simp
  with c l w show ?thesis by simp
qed

theorem Conn_Write_returns_frame_size_witness:
  "NewFrameWriter (frameWriterFactory writing_conn) (PayloadType writing_conn)
     = (Inr (zeroHeader\<lparr>Fin := True\<rparr>), frameWriterFactory writing_conn)
   \<and> berr (Writer (frameWriterFactory writing_conn)) = None
   \<and> werr (Writer (frameWriterFactory writing_conn)) = None
   \<and> fst (Conn_Write writing_conn [1, 2, 3]) = (9, None)
   \<and> sent (Writer (frameWriterFactory (snd (Conn_Write writing_conn [1, 2, 3]))))
       = [0x5A, 0xA5, 0x5A, 0xA5, 0x80, 0x03, 1, 2, 3]"
proof -
  have 1: "NewFrameWriter (frameWriterFactory writing_conn) (PayloadType writing_conn)
     = (Inr (zeroHeader\<lparr>Fin := True\<rparr>), frameWriterFactory writing_conn)"
    by (simp add: writing_conn_def NewFrameConnection_def NewFrameWriter_def zeroHeader_def)
  have 2: "berr (Writer (frameWriterFactory writing_conn)) = None" by code_simp
  have 3: "werr (Writer (frameWriterFactory writing_conn)) = None" by code_simp
  have 4: "4 + length (writeHeader (zeroHeader\<lparr>Fin := True\<rparr>) (length [1, 2, 3 :: byte]))
              + (case MaskingKey (zeroHeader\<lparr>Fin := True\<rparr>) of None \<Rightarrow> 0 | Some key \<Rightarrow> 4)
              + length [1, 2, 3 :: byte] = 9" by code_simp
  have 5: "sent (Writer (frameWriterFactory writing_conn)) @ wbuf (Writer (frameWriterFactory writing_conn))
             @ wireFrame (zeroHeader\<lparr>Fin := True\<rparr>) [1, 2, 3]
           = [0x5A, 0xA5, 0x5A, 0xA5, 0x80, 0x03, 1, 2, 3]" by code_simp
  from Conn_Write_returns_frame_size [OF 1 2 3, of "[1, 2, 3]"] 1 2 3 4 5
  show ?thesis by simp
qed

text \<open>
  C6 as stated fails: on a stream that accepts every byte, \<open>Conn.Write\<close> of the 3 bytes
  1, 2, 3 returns 9 and no error.
\<close>

theorem Conn_Write_payload_count_counterexample:
  "berr (Writer (frameWriterFactory writing_conn)) = None
   \<and> werr (Writer (frameWriterFactory writing_conn)) = None
   \<and> fst (Conn_Write writing_conn [1, 2, 3]) = (9, None)
   \<and> fst (fst (Conn_Write writing_conn [1, 2, 3])) \<noteq> length [1, 2, 3 :: byte]"
  by code_simp

subsection \<open>C7: the total frame length\<close>

text \<open>
  C7, as amended. For every successfully decoded frame the stream held the 4 preamble
  bytes, then the header bytes \<open>hdr\<close>, then what is left; the frame's \<open>Len\<close> is the
  number of header bytes without the preamble plus the payload length, as the \<open>int\<close>
  addition of the code computes it (and as a number whenever that sum fits an \<open>int\<close>).
\<close>

theorem Len_counts_header_without_preambule:
  assumes "NewFrameReader buf = Inr (frame, buf')"
  shows "\<exists>hdr. data (header frame) = Some hdr
           \<and> pending buf = preambule @ hdr @ pending buf'
           \<and> tcpFrameReader_Len frame = of_nat (length hdr) + Length (header frame)
           \<and> (sint (Length (header frame)) < 2 ^ 63 - 14 \<longrightarrow>
                sint (tcpFrameReader_Len frame) = int (length hdr) + sint (Length (header frame)))"
proof -
  from NewFrameReader_Inr [OF assms] obtain hdr where
    h: "data (header frame) = Some hdr" "pending buf = preambule @ hdr @ pending buf'"
       "length hdr \<le> 14" "flength frame = of_nat (length hdr) + Length (header frame)"
    by blast
  then show ?thesis
    by (intro exI [of _ hdr]) (simp add: tcpFrameReader_Len_def sint_header_plus)
qed

theorem Len_witness:
  "NewFrameReader test_stream = Inr (test_frame, test_stream\<lparr>pending := [116, 101, 115, 116]\<rparr>)
   \<and> (\<exists>hdr. data (header test_frame) = Some hdr
           \<and> pending test_stream = preambule @ hdr @ pending (test_stream\<lparr>pending := [116, 101, 115, 116]\<rparr>)
           \<and> tcpFrameReader_Len test_frame = of_nat (length hdr) + Length (header test_frame)
           \<and> (sint (Length (header test_frame)) < 2 ^ 63 - 14 \<longrightarrow>
                sint (tcpFrameReader_Len test_frame) = int (length hdr) + sint (Length (header test_frame))))"
proof -
  have d: "NewFrameReader test_stream = Inr (test_frame, test_stream\<lparr>pending := [116, 101, 115, 116]\<rparr>)"
    by code_simp
  from d Len_counts_header_without_preambule [OF d] show ?thesis by (rule conjI)
qed

text \<open>
  C7 as stated fails: decoding the 14 bytes of the test frame consumes 10 bytes for the
  preamble and the header, the payload length is 4, and \<open>Len\<close> is 10 (as the test
  expects, \<open>len(msg) - 4\<close>), not 14.
\<close>

theorem Len_with_preambule_counterexample:
  "NewFrameReader test_stream = Inr (test_frame, test_stream\<lparr>pending := [116, 101, 115, 116]\<rparr>)
   \<and> length (pending test_stream) - length [116, 101, 115, 116 :: byte] = 10
   \<and> sint (Length (header test_frame)) = 4
   \<and> sint (tcpFrameReader_Len test_frame) = 10
   \<and> sint (tcpFrameReader_Len test_frame)
        \<noteq> int (length (pending test_stream) - length [116, 101, 115, 116 :: byte])
            + sint (Length (header test_frame))"
  by code_simp

subsection \<open>C8: \<open>Conn.Close\<close>\<close>

text \<open>
  C8. On a connection with the package's handler, \<open>Conn.Close\<close> always leaves the stream
  resource closed. It returns the error of writing the close frame when there is one,
  and the error of closing the stream otherwise. The frame it writes has opcode 8 and as
  payload the two bytes of the default close status, high byte first; when the stream
  accepts it, it is appended to the stream and the result is the stream's close error;
  when the stream refuses it, that error is the result. \<open>NewFrameConnection\<close> sets the
  default status to 1000, the bytes 0x03 0xE8.
\<close>

theorem Conn_Close_sends_close_frame:
  assumes "frameHandler conn = TcpFrameHandler th"
  shows "rwc_closed (snd (Conn_Close conn))
       \<and> fst (Conn_Close conn) =
           (case fst (tcpFrameHandler_WriteClose (frameWriterFactory conn) (defaultCloseStatus conn)) of
              Some e \<Rightarrow> Some e
            | None \<Rightarrow> rwc_closeErr conn)
       \<and> (\<exists>hi lo. AppendUint16 [] (of_int (defaultCloseStatus conn)) = [hi, lo]
             \<and> uint hi * 256 + uint lo = defaultCloseStatus conn mod 65536)
       \<and> (NewFrameWriter (frameWriterFactory conn) CloseFrame = (Inr h, f')
            \<and> berr (Writer (frameWriterFactory conn)) = None \<longrightarrow>
          OpCode h = CloseFrame
          \<and> (werr (Writer (frameWriterFactory conn)) = None \<longrightarrow>
               fst (Conn_Close conn) = rwc_closeErr conn
               \<and> sent (Writer (frameWriterFactory (snd (Conn_Close conn)))) =
                   sent (Writer (frameWriterFactory conn)) @ wbuf (Writer (frameWriterFactory conn))
                   @ wireFrame h (AppendUint16 [] (of_int (defaultCloseStatus conn))))
          \<and> (werr (Writer (frameWriterFactory conn)) = Some e \<longrightarrow> fst (Conn_Close conn) = Some e))
       \<and> defaultCloseStatus (NewFrameConnection br bw cerr ent handler maxBytes) = 1000
       \<and> wireFrame (zeroHeader\<lparr>Fin := True, OpCode := CloseFrame\<rparr>) (AppendUint16 [] (of_int 1000))
           = [0x5A, 0xA5, 0x5A, 0xA5, 0x88, 0x02, 0x03, 0xE8]"
proof -
  have closed: "rwc_closed (snd (Conn_Close conn))"
    by (simp add: Conn_Close_def Let_def split: prod.splits)
  have r: "fst (Conn_Close conn) =
           (case fst (tcpFrameHandler_WriteClose (frameWriterFactory conn) (defaultCloseStatus conn)) of
              Some e \<Rightarrow> Some e
            | None \<Rightarrow> rwc_closeErr conn)"
    using assms by (simp add: Conn_Close_def Let_def split: prod.splits option.splits)
  have be: "\<exists>hi lo. AppendUint16 [] (of_int (defaultCloseStatus conn)) = [hi, lo]
             \<and> uint hi * 256 + uint lo = defaultCloseStatus conn mod 65536"
    by (rule AppendUint16_big_endian)
  have dflt: "defaultCloseStatus (NewFrameConnection br bw cerr ent handler maxBytes) = 1000"
    by (simp add: NewFrameConnection_def closeStatusNormal_def)
  have bytes: "wireFrame (zeroHeader\<lparr>Fin := True, OpCode := CloseFrame\<rparr>) (AppendUint16 [] (of_int 1000))
           = [0x5A, 0xA5, 0x5A, 0xA5, 0x88, 0x02, 0x03, 0xE8]"
    by code_simp
  have wr: "OpCode h = CloseFrame
          \<and> (werr (Writer (frameWriterFactory conn)) = None \<longrightarrow>
               fst (Conn_Close conn) = rwc_closeErr conn
               \<and> sent (Writer (frameWriterFactory (snd (Conn_Close conn)))) =
                   sent (Writer (frameWriterFactory conn)) @ wbuf (Writer (frameWriterFactory conn))
                   @ wireFrame h (AppendUint16 [] (of_int (defaultCloseStatus conn))))
          \<and> (werr (Writer (frameWriterFactory conn)) = Some e \<longrightarrow> fst (Conn_Close conn) = Some e)"
    if a: "NewFrameWriter (frameWriterFactory conn) CloseFrame = (Inr h, f')
            \<and> berr (Writer (frameWriterFactory conn)) = None"
  proof (intro conjI impI)
    note w = NewFrameWriter_Inr [of "frameWriterFactory conn" CloseFrame h f']
    have k: "\<And>key. MaskingKey h = Some key \<Longrightarrow> length key = 4"
      using NewFrameWriter_key [of "frameWriterFactory conn" CloseFrame h f'] a by simp
    show "OpCode h = CloseFrame" using w a by simp
    {
      assume ok: "werr (Writer (frameWriterFactory conn)) = None"
      have "tcpFrameWriter_Write h (AppendUint16 [] (of_int (defaultCloseStatus conn))) (Writer f') =
            ((length (wireFrame h (AppendUint16 [] (of_int (defaultCloseStatus conn)))), None),
             (Writer f')\<lparr>wbuf := [], sent := sent (Writer f') @ wbuf (Writer f')
                @ wireFrame h (AppendUint16 [] (of_int (defaultCloseStatus conn)))\<rparr>)"
        using a ok w k by (intro tcpFrameWriter_Write_ok) simp_all
      then have c: "tcpFrameHandler_WriteClose (frameWriterFactory conn) (defaultCloseStatus conn) =
            (None, f'\<lparr>Writer := (Writer f')\<lparr>wbuf := [], sent := sent (Writer f') @ wbuf (Writer f')
                @ wireFrame h (AppendUint16 [] (of_int (defaultCloseStatus conn)))\<rparr>\<rparr>)"
        using a by (simp add: tcpFrameHandler_WriteClose_def)
      then show "fst (Conn_Close conn) = rwc_closeErr conn"
        using r by simp
      from c show "sent (Writer (frameWriterFactory (snd (Conn_Close conn)))) =
                     sent (Writer (frameWriterFactory conn)) @ wbuf (Writer (frameWriterFactory conn))
                     @ wireFrame h (AppendUint16 [] (of_int (defaultCloseStatus conn)))"
        using assms w a by (simp add: Conn_Close_def Let_def)
    }
    {
      assume bad: "werr (Writer (frameWriterFactory conn)) = Some e"
      have "tcpFrameWriter_Write h (AppendUint16 [] (of_int (defaultCloseStatus conn))) (Writer f') =
            ((length (wireFrame h (AppendUint16 [] (of_int (defaultCloseStatus conn)))), Some e),
             (Writer f')\<lparr>wbuf := wbuf (Writer f')
                @ wireFrame h (AppendUint16 [] (of_int (defaultCloseStatus conn))), berr := Some e\<rparr>)"
        using a bad w k by (intro tcpFrameWriter_Write_fails) simp_all
      then have "fst (tcpFrameHandler_WriteClose (frameWriterFactory conn) (defaultCloseStatus conn)) = Some e"
        using a by (simp add: tcpFrameHandler_WriteClose_def)
      then show "fst (Conn_Close conn) = Some e"
        using r by simp
    }
  qed
  from closed r be dflt bytes wr show ?thesis by blast
qed

theorem Conn_Close_sends_close_frame_witness:
  "(frameHandler writing_conn = TcpFrameHandler zeroHandler
    \<and> NewFrameWriter (frameWriterFactory writing_conn) CloseFrame
        = (Inr (zeroHeader\<lparr>Fin := True, OpCode := CloseFrame\<rparr>), frameWriterFactory writing_conn)
    \<and> berr (Writer (frameWriterFactory writing_conn)) = None
    \<and> werr (Writer (frameWriterFactory writing_conn)) = None
    \<and> rwc_closed (snd (Conn_Close writing_conn))
    \<and> fst (Conn_Close writing_conn) = None
    \<and> sent (Writer (frameWriterFactory (snd (Conn_Close writing_conn))))
        = [0x5A, 0xA5, 0x5A, 0xA5, 0x88, 0x02, 0x03, 0xE8])
   \<and> (frameHandler refusing_conn = TcpFrameHandler zeroHandler
    \<and> NewFrameWriter (frameWriterFactory refusing_conn) CloseFrame
        = (Inr (zeroHeader\<lparr>Fin := True, OpCode := CloseFrame\<rparr>), frameWriterFactory refusing_conn)
    \<and> berr (Writer (frameWriterFactory refusing_conn)) = None
    \<and> werr (Writer (frameWriterFactory refusing_conn)) = Some (ErrIO 0)
    \<and> rwc_closeErr refusing_conn = Some (ErrIO 1)
    \<and> rwc_closed (snd (Conn_Close refusing_conn))
    \<and> fst (Conn_Close refusing_conn) = Some (ErrIO 0))
   \<and> (frameHandler unclosable_conn = TcpFrameHandler zeroHandler
    \<and> NewFrameWriter (frameWriterFactory unclosable_conn) CloseFrame
        = (Inr (zeroHeader\<lparr>Fin := True, OpCode := CloseFrame\<rparr>), frameWriterFactory unclosable_conn)
    \<and> berr (Writer (frameWriterFactory unclosable_conn)) = None
    \<and> werr (Writer (frameWriterFactory unclosable_conn)) = None
    \<and> rwc_closeErr unclosable_conn = Some (ErrIO 1)
    \<and> rwc_closed (snd (Conn_Close unclosable_conn))
    \<and> fst (Conn_Close unclosable_conn) = Some (ErrIO 1))"
proof -
  have a1: "frameHandler writing_conn = TcpFrameHandler zeroHandler"
    by (simp add: writing_conn_def NewFrameConnection_def)
  have a2: "NewFrameWriter (frameWriterFactory writing_conn) CloseFrame
        = (Inr (zeroHeader\<lparr>Fin := True, OpCode := CloseFrame\<rparr>), frameWriterFactory writing_conn)"
    by (simp add: writing_conn_def NewFrameConnection_def NewFrameWriter_def)
  have a3: "berr (Writer (frameWriterFactory writing_conn)) = None" by code_simp
  have a4: "werr (Writer (frameWriterFactory writing_conn)) = None" by code_simp
  have a5: "rwc_closeErr writing_conn = None" by code_simp
  have a6: "sent (Writer (frameWriterFactory writing_conn)) @ wbuf (Writer (frameWriterFactory writing_conn))
      @ wireFrame (zeroHeader\<lparr>Fin := True, OpCode := CloseFrame\<rparr>)
          (AppendUint16 [] (of_int (defaultCloseStatus writing_conn)))
      = [0x5A, 0xA5, 0x5A, 0xA5, 0x88, 0x02, 0x03, 0xE8]" by code_simp
  have b1: "frameHandler refusing_conn = TcpFrameHandler zeroHandler"
    by (simp add: refusing_conn_def NewFrameConnection_def)
  have b2: "NewFrameWriter (frameWriterFactory refusing_conn) CloseFrame
        = (Inr (zeroHeader\<lparr>Fin := True, OpCode := CloseFrame\<rparr>), frameWriterFactory refusing_conn)"
    by (simp add: refusing_conn_def NewFrameConnection_def NewFrameWriter_def)
  have b3: "berr (Writer (frameWriterFactory refusing_conn)) = None" by code_simp
  have b4: "werr (Writer (frameWriterFactory refusing_conn)) = Some (ErrIO 0)" by code_simp
  have b5: "rwc_closeErr refusing_conn = Some (ErrIO 1)" by code_simp
  have c1: "frameHandler unclosable_conn = TcpFrameHandler zeroHandler"
    by (simp add: unclosable_conn_def NewFrameConnection_def)
  have c2: "NewFrameWriter (frameWriterFactory unclosable_conn) CloseFrame
        = (Inr (zeroHeader\<lparr>Fin := True, OpCode := CloseFrame\<rparr>), frameWriterFactory unclosable_conn)"
    by (simp add: unclosable_conn_def NewFrameConnection_def NewFrameWriter_def)
  have c3: "berr (Writer (frameWriterFactory unclosable_conn)) = None" by code_simp
  have c4: "werr (Writer (frameWriterFactory unclosable_conn)) = None" by code_simp
  have c5: "rwc_closeErr unclosable_conn = Some (ErrIO 1)" by code_simp
  note A = Conn_Close_sends_close_frame [OF a1,
      of "zeroHeader\<lparr>Fin := True, OpCode := CloseFrame\<rparr>" "frameWriterFactory writing_conn"]
  note B = Conn_Close_sends_close_frame [OF b1,
      of "zeroHeader\<lparr>Fin := True, OpCode := CloseFrame\<rparr>" "frameWriterFactory refusing_conn" "ErrIO 0"]
  note C = Conn_Close_sends_close_frame [OF c1,
      of "zeroHeader\<lparr>Fin := True, OpCode := CloseFrame\<rparr>" "frameWriterFactory unclosable_conn"]
  have A': "rwc_closed (snd (Conn_Close writing_conn)) \<and> fst (Conn_Close writing_conn) = None
    \<and> sent (Writer (frameWriterFactory (snd (Conn_Close writing_conn))))
        = [0x5A, 0xA5, 0x5A, 0xA5, 0x88, 0x02, 0x03, 0xE8]"
    using A [THEN conjunct1] A [THEN conjunct2, THEN conjunct2, THEN conjunct2, THEN conjunct1]
      a2 a3 a4 a5 a6 by simp
  have B': "rwc_closed (snd (Conn_Close refusing_conn)) \<and> fst (Conn_Close refusing_conn) = Some (ErrIO 0)"
    using B [THEN conjunct1] B [THEN conjunct2, THEN conjunct2, THEN conjunct2, THEN conjunct1]
      b2 b3 b4 by simp
  have C': "rwc_closed (snd (Conn_Close unclosable_conn)) \<and> fst (Conn_Close unclosable_conn) = Some (ErrIO 1)"
    using C [THEN conjunct1] C [THEN conjunct2, THEN conjunct2, THEN conjunct2, THEN conjunct1]
      c2 c3 c4 c5 by simp
  from a1 a2 a3 a4 A' b1 b2 b3 b4 b5 B' c1 c2 c3 c4 c5 C' show ?thesis by blast
qed

subsection \<open>C9: the handler's first held payload type\<close>

text \<open>
  C9, as amended. The package has no constructor for the handler; the tests create it
  as \<open>&tcpFrameHandler{}\<close>, whose held payload type is the zero value 0, the
  continuation opcode itself. After frames that are neither text nor binary the held type
  is still 0, and a continuation frame handled then is returned as it came, with opcode 0.
\<close>

theorem first_held_type_is_zero:
  "payloadType zeroHandler = ContinuationFrame
   \<and> ((\<forall>g \<in> set gs. frame_PayloadType g \<noteq> TextFrame \<and> frame_PayloadType g \<noteq> BinaryFrame)
        \<and> OpCode (header fr) = ContinuationFrame \<longrightarrow>
      tcpFrameHandler_HandleFrame (handled zeroHandler gs) (TcpFrame fr) =
        ((Some (TcpFrame fr), None), zeroHandler))"
proof (intro conjI impI)
  show "payloadType zeroHandler = ContinuationFrame"
    by (simp add: zeroHandler_def ContinuationFrame_def)
next
  assume a: "(\<forall>g \<in> set gs. frame_PayloadType g \<noteq> TextFrame \<and> frame_PayloadType g \<noteq> BinaryFrame)
        \<and> OpCode (header fr) = ContinuationFrame"
  then have k: "handled zeroHandler gs = zeroHandler" by (intro handled_keeps) simp
  have "fr\<lparr>header := (header fr)\<lparr>OpCode := payloadType zeroHandler\<rparr>\<rparr> = fr"
    using a by (simp add: zeroHandler_def ContinuationFrame_def)
  with a show "tcpFrameHandler_HandleFrame (handled zeroHandler gs) (TcpFrame fr) =
        ((Some (TcpFrame fr), None), zeroHandler)"
    by (simp add: k HandleFrame_continuation)
qed

theorem first_held_type_is_zero_witness:
  "frame_PayloadType (TcpFrame continuation_frame) \<noteq> TextFrame
   \<and> frame_PayloadType (TcpFrame continuation_frame) \<noteq> BinaryFrame
   \<and> OpCode (header continuation_frame) = ContinuationFrame
   \<and> payloadType zeroHandler = ContinuationFrame
   \<and> tcpFrameHandler_HandleFrame (handled zeroHandler [TcpFrame continuation_frame]) (TcpFrame continuation_frame) =
        ((Some (TcpFrame continuation_frame), None), zeroHandler)"
proof -
  have g: "\<forall>g \<in> set [TcpFrame continuation_frame]. frame_PayloadType g \<noteq> TextFrame \<and> frame_PayloadType g \<noteq> BinaryFrame"
    by code_simp
  have c: "OpCode (header continuation_frame) = ContinuationFrame" by code_simp
  from first_held_type_is_zero [of "[TcpFrame continuation_frame]" continuation_frame] g c
  show ?thesis by simp
qed

text \<open>
  C9 as stated fails: the held payload type of the handler the tests create is 0 and not
  \<open>UnknownFrame\<close> (255), and a first continuation frame comes back with opcode 0.
\<close>

theorem first_held_type_unknown_counterexample:
  "payloadType zeroHandler \<noteq> UnknownFrame
   \<and> tcpFrameHandler_HandleFrame zeroHandler (TcpFrame continuation_frame) =
        ((Some (TcpFrame continuation_frame), None), zeroHandler)
   \<and> OpCode (header continuation_frame) \<noteq> UnknownFrame"
  by code_simp

subsection \<open>C10: the ceiling and frame readers of another type\<close>

text \<open>
  C10. On a connection whose handler is of another type than the package's, when the
  handler answers the decoded frame with a frame reader of another type, \<open>ReadFrame\<close>
  returns all the bytes that reader holds and no error, whatever \<open>MaxPayloadBytes\<close> is
  and whatever the reader's \<open>Len\<close> says. When the handler answers with a
  \<open>*tcpFrameReader\<close> whose payload length exceeds the ceiling (and whose payload the
  stream holds), \<open>ReadFrame\<close> fails with \<open>ErrFrameTooLarge\<close>.
\<close>

theorem ceiling_only_for_tcpFrameReader:
  assumes "frameReader conn = None"
    and "frameHandler conn = OtherFrameHandler hf wc"
    and "NewFrameReader (frameReaderFactory conn) = Inr (decoded, buf')"
  shows "(hf (TcpFrame decoded) = (Some (OtherFrame fr), None) \<longrightarrow>
            Conn_ReadFrame conn = ((o_payload fr, None), conn\<lparr>frameReaderFactory := buf'\<rparr>))
       \<and> (hf (TcpFrame decoded) = (Some (TcpFrame r), None)
          \<and> ceiling_of conn < sint (Length (header r))
          \<and> (\<forall>key. MaskingKey (header r) = Some key \<longrightarrow> length key = 4)
          \<and> limitN r \<le> int (length (pending buf')) \<longrightarrow>
            fst (Conn_ReadFrame conn) = ([], Some ErrFrameTooLarge))"
proof (intro conjI impI)
  assume "hf (TcpFrame decoded) = (Some (OtherFrame fr), None)"
  then have "HandleFrame (frameHandler conn) (TcpFrame decoded)
               = ((Some (OtherFrame fr), None), OtherFrameHandler hf wc)"
    using assms(2) by simp
  from ReadFrame_loop_other [OF this assms(3)] assms(1,2)
  show "Conn_ReadFrame conn = ((o_payload fr, None), conn\<lparr>frameReaderFactory := buf'\<rparr>)"
    by (simp add: Conn_ReadFrame_def)
next
  assume a: "hf (TcpFrame decoded) = (Some (TcpFrame r), None)
          \<and> ceiling_of conn < sint (Length (header r))
          \<and> (\<forall>key. MaskingKey (header r) = Some key \<longrightarrow> length key = 4)
          \<and> limitN r \<le> int (length (pending buf'))"
  then have "HandleFrame (frameHandler conn) (TcpFrame decoded)
               = ((Some (TcpFrame r), None), OtherFrameHandler hf wc)"
    using assms(2) by simp
  from ReadFrame_loop_too_large [OF this assms(3)] a assms(1)
  show "fst (Conn_ReadFrame conn) = ([], Some ErrFrameTooLarge)"
    by (auto simp: Conn_ReadFrame_def)
qed

theorem ceiling_only_for_tcpFrameReader_witness:
  "(frameReader wrapping_conn = None
    \<and> frameHandler wrapping_conn
        = OtherFrameHandler (\<lambda>frame. (Some (OtherFrame other_12), None)) (\<lambda>f status. (None, f))
    \<and> NewFrameReader (frameReaderFactory wrapping_conn)
        = Inr (text_12, \<lparr>pending = twelve, rerr = EOF, sched = []\<rparr>)
    \<and> MaxPayloadBytes wrapping_conn = 10
    \<and> length (o_payload other_12) = 12
    \<and> fst (Conn_ReadFrame wrapping_conn) = (twelve, None))
   \<and> (frameReader passing_conn = None
    \<and> frameHandler passing_conn = OtherFrameHandler (\<lambda>frame. (Some frame, None)) (\<lambda>f status. (None, f))
    \<and> NewFrameReader (frameReaderFactory passing_conn)
        = Inr (text_12, \<lparr>pending = twelve, rerr = EOF, sched = []\<rparr>)
    \<and> ceiling_of passing_conn < sint (Length (header text_12))
    \<and> limitN text_12 \<le> int (length (pending \<lparr>pending = twelve, rerr = EOF, sched = []\<rparr>))
    \<and> fst (Conn_ReadFrame passing_conn) = ([], Some ErrFrameTooLarge))"
proof -
  have a1: "frameReader wrapping_conn = None" by (simp add: wrapping_conn_def NewFrameConnection_def)
  have a2: "frameHandler wrapping_conn
        = OtherFrameHandler (\<lambda>frame. (Some (OtherFrame other_12), None)) (\<lambda>f status. (None, f))"
    by (simp add: wrapping_conn_def NewFrameConnection_def)
  have a3: "NewFrameReader (frameReaderFactory wrapping_conn)
        = Inr (text_12, \<lparr>pending = twelve, rerr = EOF, sched = []\<rparr>)"
    by code_simp
  have a4: "MaxPayloadBytes wrapping_conn = 10" by (simp add: wrapping_conn_def NewFrameConnection_def)
  have a5: "length (o_payload other_12) = 12" by code_simp
  have a6: "o_payload other_12 = twelve" by (simp add: other_12_def)
  have b1: "frameReader passing_conn = None" by (simp add: passing_conn_def NewFrameConnection_def)
  have b2: "frameHandler passing_conn = OtherFrameHandler (\<lambda>frame. (Some frame, None)) (\<lambda>f status. (None, f))"
    by (simp add: passing_conn_def NewFrameConnection_def)
  have b3: "NewFrameReader (frameReaderFactory passing_conn)
        = Inr (text_12, \<lparr>pending = twelve, rerr = EOF, sched = []\<rparr>)"
    by code_simp
  have b4: "ceiling_of passing_conn < sint (Length (header text_12))"
    by (simp add: passing_conn_def NewFrameConnection_def ceiling_of_def text_12_def)
  have b5: "limitN text_12 \<le> int (length (pending \<lparr>pending = twelve, rerr = EOF, sched = []\<rparr>))"
    by code_simp
  have b6: "\<forall>key. MaskingKey (header text_12) = Some key \<longrightarrow> length key = 4"
    by (simp add: text_12_def)
  note A = ceiling_only_for_tcpFrameReader [OF a1 a2 a3, of other_12]
  note B = ceiling_only_for_tcpFrameReader [OF b1 b2 b3, of _ text_12]
  have A': "fst (Conn_ReadFrame wrapping_conn) = (twelve, None)"
    using A [THEN conjunct1] a6 by simp
  have B': "fst (Conn_ReadFrame passing_conn) = ([], Some ErrFrameTooLarge)"
    using B [THEN conjunct2] b4 b5 b6 by simp
  from a1 a2 a3 a4 a5 A' b1 b2 b3 b4 b5 B' show ?thesis by blast
qed

end
